theory Spec2Isabelle
  imports Complex_Main
begin

section \<open>CineGraph: the force-directed graph view (src/components/FilmCard.tsx, GraphView)\<close>

text \<open>
  The embedding follows \<^verbatim>\<open>GraphView\<close>: the graph builder (the first \<^verbatim>\<open>useEffect\<close>),
  the physics part of \<^verbatim>\<open>animate\<close> (forces, springs, integration, boundaries) and the
  pointer handlers. JavaScript numbers are modelled as exact reals (\<^typ>\<open>real\<close>): there is
  no rounding, no NaN and no Infinity in the model. Objects held in \<^verbatim>\<open>nodesRef.current\<close>
  are identified by their index in the array, so reference equality
  \<^verbatim>\<open>a === draggingRef.current\<close> is equality of indices, and every in-place mutation of a
  node is a list update at its index. Drawing is not modelled.
\<close>

subsection \<open>Data model\<close>

text \<open>\<^verbatim>\<open>Film\<close> of src/types.ts, with the fields that \<^verbatim>\<open>GraphView\<close> reads. The numeric
  \<^verbatim>\<open>id\<close> is an integer (the API's record key).\<close>

record film =
  fid :: int
  title :: string
  rating :: real
  genres :: "string list"
  directors :: "string list"

datatype node_type = Film | Genre | Director

text \<open>\<^verbatim>\<open>interface Node\<close>; the fields \<^verbatim>\<open>id\<close> and \<^verbatim>\<open>type\<close> are \<open>nid\<close> and \<open>ntype\<close>.\<close>

record node =
  nid :: string
  ntype :: node_type
  label :: string
  x :: real
  y :: real
  vx :: real
  vy :: real
  radius :: real
  color :: string
  data :: "film option"

text \<open>\<^verbatim>\<open>interface Link\<close>.\<close>

record link =
  source :: string
  target :: string

subsection \<open>Graph builder\<close>

text \<open>The template literal \<^verbatim>\<open>`f-${film.id}`\<close> converts the number to its decimal string.\<close>

definition digit_char :: "nat \<Rightarrow> char" where
  "digit_char d = ''0123456789'' ! (d mod 10)"

fun decimal_digits :: "nat \<Rightarrow> nat list" where
  "decimal_digits n = (if 10 \<le> n then decimal_digits (n div 10) @ [n mod 10] else [n])"

declare decimal_digits.simps [simp del]

definition number_to_string :: "int \<Rightarrow> string" where
  "number_to_string i =
     (if 0 \<le> i then map digit_char (decimal_digits (nat i))
      else CHR ''-'' # map digit_char (decimal_digits (nat (- i))))"

text \<open>
  The builder's local state: the arrays \<^verbatim>\<open>nodes\<close> and \<^verbatim>\<open>links\<close>, the set \<^verbatim>\<open>nodeMap\<close>
  of ids already created, and the number of calls made to \<^verbatim>\<open>Math.random\<close> so far. The
  random source is a parameter \<open>rnd\<close>: \<open>rnd k\<close> is the value returned by call number \<open>k\<close>.
\<close>

record builder =
  nodes :: "node list"
  links :: "link list"
  nodeMap :: "string set"
  randoms :: nat

definition empty_builder :: builder where
  "empty_builder = \<lparr>nodes = [], links = [], nodeMap = {}, randoms = 0\<rparr>"

text \<open>\<^verbatim>\<open>data?.rating || 0\<close>: a missing record and a rating of 0 both give 0.\<close>

definition rating_or_0 :: "film option \<Rightarrow> real" where
  "rating_or_0 d = (case d of None \<Rightarrow> 0 | Some f \<Rightarrow> (if rating f = 0 then 0 else rating f))"

definition node_color :: "node_type \<Rightarrow> string" where
  "node_color t = (case t of Film \<Rightarrow> ''#0ea5e9'' | Genre \<Rightarrow> ''#ec4899'' | Director \<Rightarrow> ''#fbbf24'')"

definition node_radius :: "node_type \<Rightarrow> film option \<Rightarrow> real" where
  "node_radius t d = (case t of Film \<Rightarrow> 5 + (rating_or_0 d * 0.8) | Genre \<Rightarrow> 7 | Director \<Rightarrow> 6)"

definition addNode :: "(nat \<Rightarrow> real) \<Rightarrow> string \<Rightarrow> node_type \<Rightarrow> string \<Rightarrow> film option \<Rightarrow> builder \<Rightarrow> builder" where
  "addNode rnd i t l d b =
     (if i \<in> nodeMap b then b
      else b\<lparr>nodeMap := insert i (nodeMap b),
             nodes := nodes b @
               [\<lparr>nid = i, ntype = t, label = l,
                 x = rnd (randoms b) * 800, y = rnd (randoms b + 1) * 600,
                 vx = 0, vy = 0,
                 radius = node_radius t d, color = node_color t, data = d\<rparr>],
             randoms := randoms b + 2\<rparr>)"

text \<open>The body of \<^verbatim>\<open>film.genres.forEach\<close>.\<close>

definition add_genre :: "(nat \<Rightarrow> real) \<Rightarrow> string \<Rightarrow> string \<Rightarrow> builder \<Rightarrow> builder" where
  "add_genre rnd filmId g b =
     (let genreId = ''g-'' @ g;
          b1 = addNode rnd genreId Genre g None b
      in b1\<lparr>links := links b1 @ [\<lparr>source = filmId, target = genreId\<rparr>]\<rparr>)"

text \<open>The \<^verbatim>\<open>if (film.directors.length > 0)\<close> block: only \<^verbatim>\<open>film.directors[0]\<close> is used.\<close>

definition add_director :: "(nat \<Rightarrow> real) \<Rightarrow> string \<Rightarrow> string list \<Rightarrow> builder \<Rightarrow> builder" where
  "add_director rnd filmId ds b =
     (case ds of
        [] \<Rightarrow> b
      | d # _ \<Rightarrow>
          (let dirId = ''d-'' @ d;
               b1 = addNode rnd dirId Director d None b
           in b1\<lparr>links := links b1 @ [\<lparr>source = filmId, target = dirId\<rparr>]\<rparr>))"

text \<open>The body of \<^verbatim>\<open>films.forEach\<close>.\<close>

definition add_film :: "(nat \<Rightarrow> real) \<Rightarrow> film \<Rightarrow> builder \<Rightarrow> builder" where
  "add_film rnd f b =
     (let filmId = ''f-'' @ number_to_string (fid f);
          b1 = addNode rnd filmId Film (title f) (Some f) b;
          b2 = fold (add_genre rnd filmId) (genres f) b1
      in add_director rnd filmId (directors f) b2)"

definition build_graph :: "(nat \<Rightarrow> real) \<Rightarrow> film list \<Rightarrow> builder" where
  "build_graph rnd films = fold (add_film rnd) films empty_builder"

text \<open>
  The initial centre layout: when the container exists, with bounding rectangle
  \<open>(width, height)\<close>, every node is moved next to the centre, with two more random numbers.
\<close>

fun center_nodes :: "(nat \<Rightarrow> real) \<Rightarrow> real \<Rightarrow> real \<Rightarrow> nat \<Rightarrow> node list \<Rightarrow> node list" where
  "center_nodes rnd cx cy r [] = []"
| "center_nodes rnd cx cy r (n # ns) =
     n\<lparr>x := cx + (rnd r - 0.5) * 200, y := cy + (rnd (r + 1) - 0.5) * 200\<rparr>
       # center_nodes rnd cx cy (r + 2) ns"

definition init_graph :: "(nat \<Rightarrow> real) \<Rightarrow> (real \<times> real) option \<Rightarrow> film list \<Rightarrow> node list \<times> link list" where
  "init_graph rnd container films =
     (let b = build_graph rnd films
      in case container of
           None \<Rightarrow> (nodes b, links b)
         | Some (width, height) \<Rightarrow>
             (center_nodes rnd (width / 2) (height / 2) (randoms b) (nodes b), links b))"

subsection \<open>Simulation step (the physics of animate)\<close>

definition repulsion :: real where "repulsion = 1500"
definition springLength :: real where "springLength = 100"
definition k_spring :: real where "k_spring = 0.08"
definition damping :: real where "damping = 0.85"
definition centerForce :: real where "centerForce = 0.03"
definition maxVelocity :: real where "maxVelocity = 15"

text \<open>\<^verbatim>\<open>Math.sqrt(dx * dx + dy * dy) || 1\<close>: the square root, and 1 where it is 0.\<close>

definition distance :: "real \<Rightarrow> real \<Rightarrow> real" where
  "distance dx dy = (let d = sqrt (dx * dx + dy * dy) in if d = 0 then 1 else d)"

text \<open>Centre gravity on node \<open>a\<close>.\<close>

definition center_gravity :: "real \<Rightarrow> real \<Rightarrow> node \<Rightarrow> node" where
  "center_gravity width height a =
     (let dxC = (width / 2) - x a;
          dyC = (height / 2) - y a
      in a\<lparr>vx := vx a + dxC * centerForce, vy := vy a + dyC * centerForce\<rparr>)"

text \<open>The body of the inner loop on the pair \<open>a = nodes[i]\<close>, \<open>b = nodes[j]\<close>.\<close>

definition repel :: "node \<Rightarrow> node \<Rightarrow> node \<times> node" where
  "repel a b =
     (let dx = x a - x b;
          dy = y a - y b;
          dist = distance dx dy
      in if dist < 300 then
           (let force = repulsion / (dist * dist);
                fx = (dx / dist) * force;
                fy = (dy / dist) * force
            in (a\<lparr>vx := vx a + fx, vy := vy a + fy\<rparr>, b\<lparr>vx := vx b - fx, vy := vy b - fy\<rparr>))
         else (a, b))"

text \<open>The body of the inner loop as an update of the array at \<open>i\<close> and \<open>j\<close>.\<close>

definition repel_at :: "nat \<Rightarrow> nat \<Rightarrow> node list \<Rightarrow> node list" where
  "repel_at i j ns = (case repel (ns ! i) (ns ! j) of (a, b) \<Rightarrow> ns[i := a, j := b])"

text \<open>\<^verbatim>\<open>for (let j = i + 1; j < nodes.length; j++)\<close> for a fixed \<open>i\<close>.\<close>

definition repulsion_loop :: "nat \<Rightarrow> node list \<Rightarrow> node list" where
  "repulsion_loop i ns = fold (repel_at i) [i + 1 ..< length ns] ns"

text \<open>The body of the outer loop: the dragged node is skipped; any other node gets centre
  gravity and then repels every later node.\<close>

definition force_on :: "real \<Rightarrow> real \<Rightarrow> nat option \<Rightarrow> nat \<Rightarrow> node list \<Rightarrow> node list" where
  "force_on width height dragging i ns =
     (if dragging = Some i then ns
      else repulsion_loop i (ns[i := center_gravity width height (ns ! i)]))"

text \<open>\<^verbatim>\<open>for (let i = 0; i < nodes.length; i++)\<close>.\<close>

definition calculate_forces :: "real \<Rightarrow> real \<Rightarrow> nat option \<Rightarrow> node list \<Rightarrow> node list" where
  "calculate_forces width height dragging ns =
     fold (force_on width height dragging) [0 ..< length ns] ns"

text \<open>\<^verbatim>\<open>nodes.find(n => n.id === ident)\<close>, as the index of the first node with that id.\<close>

fun find_index :: "('a \<Rightarrow> bool) \<Rightarrow> 'a list \<Rightarrow> nat option" where
  "find_index P [] = None"
| "find_index P (n # ns) = (if P n then Some 0 else map_option Suc (find_index P ns))"

text \<open>The body of \<^verbatim>\<open>links.forEach\<close> in the spring pass.\<close>

definition spring_link :: "nat option \<Rightarrow> link \<Rightarrow> node list \<Rightarrow> node list" where
  "spring_link dragging l ns =
     (case find_index (\<lambda>n. nid n = source l) ns of
        None \<Rightarrow> ns
      | Some s \<Rightarrow>
         (case find_index (\<lambda>n. nid n = target l) ns of
            None \<Rightarrow> ns
          | Some t \<Rightarrow>
             (let dx = x (ns ! t) - x (ns ! s);
                  dy = y (ns ! t) - y (ns ! s);
                  dist = distance dx dy;
                  force = (dist - springLength) * k_spring;
                  fx = (dx / dist) * force;
                  fy = (dy / dist) * force;
                  ns1 = (if dragging \<noteq> Some s
                         then ns[s := (ns ! s)\<lparr>vx := vx (ns ! s) + fx, vy := vy (ns ! s) + fy\<rparr>]
                         else ns);
                  ns2 = (if dragging \<noteq> Some t
                         then ns1[t := (ns1 ! t)\<lparr>vx := vx (ns1 ! t) - fx, vy := vy (ns1 ! t) - fy\<rparr>]
                         else ns1)
              in ns2)))"

definition spring_pass :: "nat option \<Rightarrow> link list \<Rightarrow> node list \<Rightarrow> node list" where
  "spring_pass dragging ls ns = fold (spring_link dragging) ls ns"

text \<open>The velocity cap.\<close>

definition cap_velocity :: "node \<Rightarrow> node" where
  "cap_velocity n =
     (let v = sqrt (vx n * vx n + vy n * vy n)
      in if v > maxVelocity
         then n\<lparr>vx := (vx n / v) * maxVelocity, vy := (vy n / v) * maxVelocity\<rparr>
         else n)"

text \<open>The \<^verbatim>\<open>if (n !== draggingRef.current)\<close> block: cap, damping, hover damping, integration.
  \<^verbatim>\<open>n.id === hoveredNode?.id\<close> is false when there is no hovered node.\<close>

definition integrate :: "node option \<Rightarrow> node \<Rightarrow> node" where
  "integrate hoveredNode n =
     (let n1 = cap_velocity n;
          n2 = n1\<lparr>vx := vx n1 * damping, vy := vy n1 * damping\<rparr>;
          n3 = (if Some (nid n2) = map_option nid hoveredNode
                then n2\<lparr>vx := vx n2 * 0.1, vy := vy n2 * 0.1\<rparr>
                else n2)
      in n3\<lparr>x := x n3 + vx n3, y := y n3 + vy n3\<rparr>)"

text \<open>Boundaries: the two tests on \<open>x\<close>, then the two tests on \<open>y\<close>, in the source's order.\<close>

definition bounce_x :: "real \<Rightarrow> node \<Rightarrow> node" where
  "bounce_x width n =
     (let padding = radius n + 10;
          n1 = (if x n < padding then n\<lparr>x := padding, vx := vx n * (- 1)\<rparr> else n)
      in if x n1 > width - padding then n1\<lparr>x := width - padding, vx := vx n1 * (- 1)\<rparr> else n1)"

definition bounce_y :: "real \<Rightarrow> node \<Rightarrow> node" where
  "bounce_y height n =
     (let padding = radius n + 10;
          n1 = (if y n < padding then n\<lparr>y := padding, vy := vy n * (- 1)\<rparr> else n)
      in if y n1 > height - padding then n1\<lparr>y := height - padding, vy := vy n1 * (- 1)\<rparr> else n1)"

definition boundaries :: "real \<Rightarrow> real \<Rightarrow> node \<Rightarrow> node" where
  "boundaries width height n = bounce_y height (bounce_x width n)"

text \<open>The body of \<^verbatim>\<open>nodes.forEach\<close> in "2. Update Positions", for the node at index \<open>i\<close>.\<close>

definition update_node :: "real \<Rightarrow> real \<Rightarrow> nat option \<Rightarrow> node option \<Rightarrow> nat \<Rightarrow> node \<Rightarrow> node" where
  "update_node width height dragging hoveredNode i n =
     boundaries width height (if dragging \<noteq> Some i then integrate hoveredNode n else n)"

fun update_from :: "real \<Rightarrow> real \<Rightarrow> nat option \<Rightarrow> node option \<Rightarrow> nat \<Rightarrow> node list \<Rightarrow> node list" where
  "update_from width height dragging hoveredNode i [] = []"
| "update_from width height dragging hoveredNode i (n # ns) =
     update_node width height dragging hoveredNode i n
       # update_from width height dragging hoveredNode (Suc i) ns"

definition update_positions :: "real \<Rightarrow> real \<Rightarrow> nat option \<Rightarrow> node option \<Rightarrow> node list \<Rightarrow> node list" where
  "update_positions width height dragging hoveredNode ns =
     update_from width height dragging hoveredNode 0 ns"

text \<open>One physics step on the node array: forces, springs, positions.\<close>

definition physics_step :: "real \<Rightarrow> real \<Rightarrow> nat option \<Rightarrow> node option \<Rightarrow> link list \<Rightarrow> node list \<Rightarrow> node list" where
  "physics_step width height dragging hoveredNode ls ns =
     update_positions width height dragging hoveredNode
       (spring_pass dragging ls (calculate_forces width height dragging ns))"

subsection \<open>Interaction state and pointer handlers\<close>

record graph_view =
  nodesRef :: "node list"
  linksRef :: "link list"
  draggingRef :: "nat option"
  mouseRef :: "real \<times> real"
  hoveredNode :: "node option"

text \<open>\<^verbatim>\<open>animate\<close>: nothing happens without a canvas and its context; otherwise one physics
  step with the canvas's logical size.\<close>

definition animate :: "(real \<times> real) option \<Rightarrow> graph_view \<Rightarrow> graph_view" where
  "animate canvas s =
     (case canvas of
        None \<Rightarrow> s
      | Some (width, height) \<Rightarrow>
          s\<lparr>nodesRef := physics_step width height (draggingRef s) (hoveredNode s)
                          (linksRef s) (nodesRef s)\<rparr>)"

text \<open>The hit predicate of the three handlers.\<close>

definition hit :: "real \<Rightarrow> real \<Rightarrow> node \<Rightarrow> bool" where
  "hit px py n = (let dx = x n - px; dy = y n - py in dx * dx + dy * dy < (radius n + 10) ^ 2)"

definition hit_test :: "node list \<Rightarrow> real \<Rightarrow> real \<Rightarrow> nat option" where
  "hit_test ns px py = find_index (hit px py) ns"

definition handleMouseDown :: "real \<Rightarrow> real \<Rightarrow> graph_view \<Rightarrow> graph_view" where
  "handleMouseDown px py s =
     (case hit_test (nodesRef s) px py of
        None \<Rightarrow> s
      | Some i \<Rightarrow> s\<lparr>draggingRef := Some i,
                    nodesRef := (nodesRef s)[i := (nodesRef s ! i)\<lparr>vx := 0, vy := 0\<rparr>]\<rparr>)"

definition handleMouseMove :: "real \<Rightarrow> real \<Rightarrow> graph_view \<Rightarrow> graph_view" where
  "handleMouseMove px py s =
     (let s1 = s\<lparr>mouseRef := (px, py)\<rparr>;
          s2 = (case draggingRef s1 of
                  None \<Rightarrow> s1
                | Some i \<Rightarrow>
                    s1\<lparr>nodesRef := (nodesRef s1)[i := (nodesRef s1 ! i)\<lparr>x := px, y := py, vx := 0, vy := 0\<rparr>]\<rparr>)
      in s2\<lparr>hoveredNode := map_option (\<lambda>i. nodesRef s2 ! i) (hit_test (nodesRef s2) px py)\<rparr>)"

definition handleMouseUp :: "graph_view \<Rightarrow> graph_view" where
  "handleMouseUp s = s\<lparr>draggingRef := None\<rparr>"

subsection \<open>Notions used in the statements\<close>

text \<open>The prefix that the builder gives to the ids of each kind of node.\<close>

definition id_prefix :: "node_type \<Rightarrow> string" where
  "id_prefix t = (case t of Film \<Rightarrow> ''f-'' | Genre \<Rightarrow> ''g-'' | Director \<Rightarrow> ''d-'')"

text \<open>The invariant of the builder's loop: \<^verbatim>\<open>nodeMap\<close> holds exactly the ids of the nodes
  created so far, every link joins two of them, every id carries the prefix of its kind, and
  no id occurs twice.\<close>

definition builder_inv :: "builder \<Rightarrow> bool" where
  "builder_inv b =
     (nodeMap b = nid ` set (nodes b) \<and>
      list_all (\<lambda>l. source l \<in> nodeMap b \<and> target l \<in> nodeMap b) (links b) \<and>
      list_all (\<lambda>n. take 2 (nid n) = id_prefix (ntype n)) (nodes b) \<and>
      distinct (map nid (nodes b)))"

text \<open>The two films of the end-to-end scenario.\<close>

definition example_films :: "film list" where
  "example_films =
     [\<lparr>fid = 1, title = ''A'', rating = 8, genres = [''Drama''], directors = [''X'']\<rparr>,
      \<lparr>fid = 2, title = ''B'', rating = 5, genres = [''Drama''], directors = [''Y'']\<rparr>]"

text \<open>A node with its velocity set to zero: two nodes with the same image differ at most in
  their velocity.\<close>

definition at_rest :: "node \<Rightarrow> node" where
  "at_rest n = n\<lparr>vx := 0, vy := 0\<rparr>"

text \<open>A Genre node as the builder creates it, placed at a given position (for the examples).\<close>

definition genre_node :: "string \<Rightarrow> real \<Rightarrow> real \<Rightarrow> node" where
  "genre_node g px py =
     \<lparr>nid = ''g-'' @ g, ntype = Genre, label = g, x = px, y = py, vx = 0, vy = 0,
      radius = 7, color = ''#ec4899'', data = None\<rparr>"

section \<open>The graph builder\<close>

lemma number_to_string_1: "number_to_string 1 = ''1''"
  by (simp add: number_to_string_def decimal_digits.simps digit_char_def)

lemma number_to_string_2: "number_to_string 2 = ''2''"
  by (simp add: number_to_string_def decimal_digits.simps digit_char_def)

lemma links_addNode: "links (addNode rnd i t l d b) = links b"
  by (simp add: addNode_def)

lemma links_fold_add_genre:
  "links (fold (add_genre rnd F) gs b) = links b @ map (\<lambda>g. \<lparr>source = F, target = ''g-'' @ g\<rparr>) gs"
  by (induction gs arbitrary: b) (simp_all add: add_genre_def Let_def links_addNode)

lemma links_add_director:
  "links (add_director rnd F ds b) =
     links b @ (case ds of [] \<Rightarrow> [] | d # _ \<Rightarrow> [\<lparr>source = F, target = ''d-'' @ d\<rparr>])"
  by (cases ds) (simp_all add: add_director_def Let_def links_addNode)

lemma links_add_film:
  "links (add_film rnd f b) =
     links b @ map (\<lambda>g. \<lparr>source = ''f-'' @ number_to_string (fid f), target = ''g-'' @ g\<rparr>) (genres f)
       @ (case directors f of [] \<Rightarrow> []
          | d # _ \<Rightarrow> [\<lparr>source = ''f-'' @ number_to_string (fid f), target = ''d-'' @ d\<rparr>])"
  by (simp add: add_film_def Let_def links_add_director links_fold_add_genre links_addNode
      split: list.splits)

lemma links_fold_add_film:
  "links (fold (add_film rnd) fs b) =
     links b @ concat (map (\<lambda>f. map (\<lambda>g. \<lparr>source = ''f-'' @ number_to_string (fid f), target = ''g-'' @ g\<rparr>) (genres f)
       @ (case directors f of [] \<Rightarrow> []
          | d # _ \<Rightarrow> [\<lparr>source = ''f-'' @ number_to_string (fid f), target = ''d-'' @ d\<rparr>])) fs)"
  by (induction fs arbitrary: b) (simp_all add: links_add_film)

lemma director_edges_of_film:
  "filter (\<lambda>l. take 2 (target l) = ''d-'')
     (map (\<lambda>g. \<lparr>source = F, target = ''g-'' @ g\<rparr>) gs
       @ (case ds of [] \<Rightarrow> [] | d # _ \<Rightarrow> [\<lparr>source = F, target = ''d-'' @ d\<rparr>]))
   = (case ds of [] \<Rightarrow> [] | d # _ \<Rightarrow> [\<lparr>source = F, target = ''d-'' @ d\<rparr>])"
  by (induction gs) (simp_all split: list.splits)

lemma builder_inv_addNode:
  assumes "builder_inv b" "take 2 i = id_prefix t"
  shows "builder_inv (addNode rnd i t l d b)" "i \<in> nodeMap (addNode rnd i t l d b)"
    "nodeMap b \<subseteq> nodeMap (addNode rnd i t l d b)"
  using assms by (auto simp: builder_inv_def addNode_def list_all_iff)

lemma builder_inv_link:
  assumes "builder_inv b" "s \<in> nodeMap b" "t \<in> nodeMap b"
  shows "builder_inv (b\<lparr>links := links b @ [\<lparr>source = s, target = t\<rparr>]\<rparr>)"
  using assms by (auto simp: builder_inv_def list_all_iff)

lemma builder_inv_add_genre:
  assumes "builder_inv b" "F \<in> nodeMap b"
  shows "builder_inv (add_genre rnd F g b) \<and> F \<in> nodeMap (add_genre rnd F g b)"
proof -
  let ?b1 = "addNode rnd (''g-'' @ g) Genre g None b"
  have p: "take 2 (''g-'' @ g) = id_prefix Genre" by (simp add: id_prefix_def)
  have 1: "builder_inv ?b1" and 2: "''g-'' @ g \<in> nodeMap ?b1" and 3: "nodeMap b \<subseteq> nodeMap ?b1"
    using builder_inv_addNode [OF assms(1) p] by blast+
  from 3 assms(2) have 4: "F \<in> nodeMap ?b1" by blast
  show ?thesis
    using builder_inv_link [OF 1 4 2] 4 by (simp add: add_genre_def Let_def)
qed

lemma builder_inv_fold_add_genre:
  "builder_inv b \<Longrightarrow> F \<in> nodeMap b \<Longrightarrow>
   builder_inv (fold (add_genre rnd F) gs b) \<and> F \<in> nodeMap (fold (add_genre rnd F) gs b)"
  by (induction gs arbitrary: b) (simp_all add: builder_inv_add_genre)

lemma builder_inv_add_director:
  assumes "builder_inv b" "F \<in> nodeMap b"
  shows "builder_inv (add_director rnd F ds b)"
proof (cases ds)
  case Nil
  then show ?thesis using assms by (simp add: add_director_def)
next
  case (Cons d ds')
  let ?b1 = "addNode rnd (''d-'' @ d) Director d None b"
  have p: "take 2 (''d-'' @ d) = id_prefix Director" by (simp add: id_prefix_def)
  have 1: "builder_inv ?b1" and 2: "''d-'' @ d \<in> nodeMap ?b1" and 3: "nodeMap b \<subseteq> nodeMap ?b1"
    using builder_inv_addNode [OF assms(1) p] by blast+
  from 3 assms(2) have 4: "F \<in> nodeMap ?b1" by blast
  show ?thesis
    using builder_inv_link [OF 1 4 2] Cons by (simp add: add_director_def Let_def)
qed

lemma builder_inv_add_film:
  assumes "builder_inv b"
  shows "builder_inv (add_film rnd f b)"
proof -
  let ?F = "''f-'' @ number_to_string (fid f)"
  let ?b1 = "addNode rnd ?F Film (title f) (Some f) b"
  have p: "take 2 ?F = id_prefix Film" by (simp add: id_prefix_def)
  have 1: "builder_inv ?b1" and 2: "?F \<in> nodeMap ?b1"
    using builder_inv_addNode [OF assms p] by blast+
  have 3: "builder_inv (fold (add_genre rnd ?F) (genres f) ?b1)"
    and 4: "?F \<in> nodeMap (fold (add_genre rnd ?F) (genres f) ?b1)"
    using builder_inv_fold_add_genre [OF 1 2] by blast+
  show ?thesis
    using builder_inv_add_director [OF 3 4] by (simp add: add_film_def Let_def)
qed

lemma builder_inv_fold_add_film:
  "builder_inv b \<Longrightarrow> builder_inv (fold (add_film rnd) fs b)"
  by (induction fs arbitrary: b) (simp_all add: builder_inv_add_film)

lemma builder_inv_build_graph: "builder_inv (build_graph rnd films)"
  unfolding build_graph_def
  by (rule builder_inv_fold_add_film) (simp add: builder_inv_def empty_builder_def)

lemma map_key_center_nodes:
  "map (\<lambda>n. (nid n, ntype n)) (center_nodes rnd cx cy r ns) = map (\<lambda>n. (nid n, ntype n)) ns"
  by (induction ns arbitrary: r) simp_all

lemma init_graph_keys:
  "map (\<lambda>n. (nid n, ntype n)) (fst (init_graph rnd container films))
     = map (\<lambda>n. (nid n, ntype n)) (nodes (build_graph rnd films))"
  by (cases container) (auto simp: init_graph_def Let_def map_key_center_nodes)

lemma init_graph_links: "snd (init_graph rnd container films) = links (build_graph rnd films)"
  by (cases container) (auto simp: init_graph_def Let_def)

lemma center_nodes_summary:
  "map (\<lambda>n. (nid n, ntype n, radius n)) (center_nodes rnd cx cy r ns)
     = map (\<lambda>n. (nid n, ntype n, radius n)) ns"
  by (induction ns arbitrary: r) simp_all

lemma init_graph_summary:
  "map (\<lambda>n. (nid n, ntype n, radius n)) (fst (init_graph rnd container films))
     = map (\<lambda>n. (nid n, ntype n, radius n)) (nodes (build_graph rnd films))"
  by (cases container) (auto simp: init_graph_def Let_def center_nodes_summary)

lemma example_nodes:
  "map (\<lambda>n. (nid n, ntype n, radius n)) (nodes (build_graph rnd example_films)) =
     [(''f-1'', Film, 11.4), (''g-Drama'', Genre, 7), (''d-X'', Director, 6),
      (''f-2'', Film, 9), (''d-Y'', Director, 6)]"
  by (simp add: build_graph_def add_film_def add_genre_def add_director_def
      addNode_def empty_builder_def example_films_def number_to_string_1 number_to_string_2 Let_def
      node_radius_def rating_or_0_def)

lemma example_links:
  "links (build_graph rnd example_films) =
     [\<lparr>source = ''f-1'', target = ''g-Drama''\<rparr>, \<lparr>source = ''f-1'', target = ''d-X''\<rparr>,
      \<lparr>source = ''f-2'', target = ''g-Drama''\<rparr>, \<lparr>source = ''f-2'', target = ''d-Y''\<rparr>]"
  by (simp add: build_graph_def links_add_film example_films_def number_to_string_1
      number_to_string_2 empty_builder_def)

text \<open>
  Claim C3. The two-film scenario: the built graph has the five nodes \<open>f-1\<close>, \<open>g-Drama\<close>,
  \<open>d-X\<close>, \<open>f-2\<close>, \<open>d-Y\<close> (in creation order) and four edges; \<open>f-1\<close> has radius 11.4 and
  \<open>f-2\<close> radius 9; the shared genre gives one Genre node, the target of two edges. This
  holds for every random source and with or without a container for the centre layout.
\<close>

theorem example_graph:
  "map (\<lambda>n. (nid n, ntype n, radius n)) (fst (init_graph rnd container example_films)) =
     [(''f-1'', Film, 11.4), (''g-Drama'', Genre, 7), (''d-X'', Director, 6),
      (''f-2'', Film, 9), (''d-Y'', Director, 6)]
   \<and> snd (init_graph rnd container example_films) =
     [\<lparr>source = ''f-1'', target = ''g-Drama''\<rparr>, \<lparr>source = ''f-1'', target = ''d-X''\<rparr>,
      \<lparr>source = ''f-2'', target = ''g-Drama''\<rparr>, \<lparr>source = ''f-2'', target = ''d-Y''\<rparr>]
   \<and> length (fst (init_graph rnd container example_films)) = 5
   \<and> length (snd (init_graph rnd container example_films)) = 4
   \<and> length (filter (\<lambda>n. nid n = ''g-Drama'') (fst (init_graph rnd container example_films))) = 1
   \<and> length (filter (\<lambda>l. target l = ''g-Drama'') (snd (init_graph rnd container example_films))) = 2"
proof -
  let ?ns = "fst (init_graph rnd container example_films)"
  let ?ls = "snd (init_graph rnd container example_films)"
  have n: "map (\<lambda>n. (nid n, ntype n, radius n)) ?ns =
     [(''f-1'', Film, 11.4), (''g-Drama'', Genre, 7), (''d-X'', Director, 6),
      (''f-2'', Film, 9), (''d-Y'', Director, 6)]"
    unfolding init_graph_summary by (rule example_nodes)
  have l: "?ls =
     [\<lparr>source = ''f-1'', target = ''g-Drama''\<rparr>, \<lparr>source = ''f-1'', target = ''d-X''\<rparr>,
      \<lparr>source = ''f-2'', target = ''g-Drama''\<rparr>, \<lparr>source = ''f-2'', target = ''d-Y''\<rparr>]"
    unfolding init_graph_links by (rule example_links)
  have len: "length ?ns = 5"
    using arg_cong [OF n, of length] by simp
  have "length (filter (\<lambda>n. nid n = ''g-Drama'') ?ns)
        = length (filter (\<lambda>p. fst p = ''g-Drama'') (map (\<lambda>n. (nid n, ntype n, radius n)) ?ns))"
    by (simp add: filter_map comp_def)
  also have "\<dots> = 1" unfolding n by simp
  finally have one: "length (filter (\<lambda>n. nid n = ''g-Drama'') ?ns) = 1" .
  have two: "length (filter (\<lambda>l. target l = ''g-Drama'') ?ls) = 2"
    unfolding l by simp
  have len4: "length ?ls = 4" unfolding l by simp
  from n l len len4 one two show ?thesis by blast
qed

text \<open>
  Claim C8. Processing one film appends, after its genre edges, exactly one edge to the id
  \<open>d-\<close> of the first director when the director list is not empty, and no such edge when
  it is empty; so the edges of that film whose target is a director id are that single edge
  or none, and the whole graph has one director edge per film with a director. In the built
  graph that edge is present for every film with a director, and its target is the id of a
  node of kind Director.
\<close>

theorem director_limiting:
  "links (add_film rnd f b) =
     links b @ map (\<lambda>g. \<lparr>source = ''f-'' @ number_to_string (fid f), target = ''g-'' @ g\<rparr>) (genres f)
       @ (case directors f of [] \<Rightarrow> []
          | d # _ \<Rightarrow> [\<lparr>source = ''f-'' @ number_to_string (fid f), target = ''d-'' @ d\<rparr>])
   \<and> filter (\<lambda>l. take 2 (target l) = id_prefix Director)
        (drop (length (links b)) (links (add_film rnd f b))) =
       (case directors f of [] \<Rightarrow> []
        | d # _ \<Rightarrow> [\<lparr>source = ''f-'' @ number_to_string (fid f), target = ''d-'' @ d\<rparr>])
   \<and> length (filter (\<lambda>l. take 2 (target l) = id_prefix Director) (links (build_graph rnd films))) =
       length (filter (\<lambda>f. directors f \<noteq> []) films)
   \<and> (f \<in> set films \<and> directors f = d # ds \<longrightarrow>
        \<lparr>source = ''f-'' @ number_to_string (fid f), target = ''d-'' @ d\<rparr>
          \<in> set (links (build_graph rnd films))
        \<and> (\<exists>n \<in> set (nodes (build_graph rnd films)). nid n = ''d-'' @ d \<and> ntype n = Director))"
proof -
  have "length (filter (\<lambda>l. take 2 (target l) = ''d-'') (links (fold (add_film rnd) fs b0))) =
        length (filter (\<lambda>l. take 2 (target l) = ''d-'') (links b0))
          + length (filter (\<lambda>f. directors f \<noteq> []) fs)" for fs b0
  proof (induction fs arbitrary: b0)
    case Nil
    show ?case by simp
  next
    case (Cons f' fs)
    have "length (filter (\<lambda>l. take 2 (target l) = ''d-'') (links (add_film rnd f' b0))) =
          length (filter (\<lambda>l. take 2 (target l) = ''d-'') (links b0))
            + (if directors f' \<noteq> [] then 1 else 0)"
      by (simp add: links_add_film director_edges_of_film split: list.splits)
    with Cons.IH [of "add_film rnd f' b0"] show ?case by simp
  qed
  from this [of films empty_builder]
  have count: "length (filter (\<lambda>l. take 2 (target l) = ''d-'') (links (build_graph rnd films))) =
        length (filter (\<lambda>f. directors f \<noteq> []) films)"
    by (simp add: build_graph_def empty_builder_def)
  have present: "\<lparr>source = ''f-'' @ number_to_string (fid f), target = ''d-'' @ d\<rparr>
          \<in> set (links (build_graph rnd films))
        \<and> (\<exists>n \<in> set (nodes (build_graph rnd films)). nid n = ''d-'' @ d \<and> ntype n = Director)"
    if "f \<in> set films \<and> directors f = d # ds"
  proof -
    let ?l = "\<lparr>source = ''f-'' @ number_to_string (fid f), target = ''d-'' @ d\<rparr>"
    have mem: "?l \<in> set (links (build_graph rnd films))"
      using that unfolding build_graph_def links_fold_add_film by force
    have inv: "builder_inv (build_graph rnd films)" by (rule builder_inv_build_graph)
    from inv mem have "target ?l \<in> nid ` set (nodes (build_graph rnd films))"
      by (auto simp: builder_inv_def list_all_iff)
    then obtain n where n: "n \<in> set (nodes (build_graph rnd films))" "nid n = ''d-'' @ d"
      by auto
    from inv n(1) have "take 2 (nid n) = id_prefix (ntype n)"
      by (auto simp: builder_inv_def list_all_iff)
    with n(2) have "ntype n = Director"
      by (cases "ntype n") (simp_all add: id_prefix_def)
    with mem n show ?thesis by blast
  qed
  have one: "links (add_film rnd f b) =
     links b @ map (\<lambda>g. \<lparr>source = ''f-'' @ number_to_string (fid f), target = ''g-'' @ g\<rparr>) (genres f)
       @ (case directors f of [] \<Rightarrow> []
          | d # _ \<Rightarrow> [\<lparr>source = ''f-'' @ number_to_string (fid f), target = ''d-'' @ d\<rparr>])"
    by (rule links_add_film)
  have dir: "filter (\<lambda>l. take 2 (target l) = id_prefix Director)
        (drop (length (links b)) (links (add_film rnd f b))) =
       (case directors f of [] \<Rightarrow> []
        | d # _ \<Rightarrow> [\<lparr>source = ''f-'' @ number_to_string (fid f), target = ''d-'' @ d\<rparr>])"
    by (simp add: links_add_film director_edges_of_film id_prefix_def split: list.splits)
  from one dir count present show ?thesis
    by (simp add: id_prefix_def)
qed

text \<open>The instance of the claim: of three directors, only the first gets an edge and a node.\<close>

theorem director_limiting_witness:
  "filter (\<lambda>l. take 2 (target l) = id_prefix Director)
     (links (add_film (\<lambda>_. 0) \<lparr>fid = 7, title = ''T'', rating = 6, genres = [''Drama'', ''Crime''],
                           directors = [''P'', ''Q'', ''R'']\<rparr> empty_builder))
     = [\<lparr>source = ''f-7'', target = ''d-P''\<rparr>]
   \<and> \<lparr>source = ''f-7'', target = ''d-P''\<rparr>
       \<in> set (links (build_graph (\<lambda>_. 0) [\<lparr>fid = 7, title = ''T'', rating = 6, genres = [''Drama'', ''Crime''],
                           directors = [''P'', ''Q'', ''R'']\<rparr>]))
   \<and> (\<exists>n \<in> set (nodes (build_graph (\<lambda>_. 0) [\<lparr>fid = 7, title = ''T'', rating = 6,
                           genres = [''Drama'', ''Crime''], directors = [''P'', ''Q'', ''R'']\<rparr>])).
         nid n = ''d-P'' \<and> ntype n = Director)"
proof -
  let ?f = "\<lparr>fid = 7, title = ''T'', rating = 6, genres = [''Drama'', ''Crime''],
                           directors = [''P'', ''Q'', ''R'']\<rparr>"
  have h: "?f \<in> set [?f] \<and> directors ?f = ''P'' # [''Q'', ''R'']" by simp
  have seven: "number_to_string 7 = ''7''"
    by (simp add: number_to_string_def decimal_digits.simps digit_char_def)
  from director_limiting [of "\<lambda>_. 0" ?f empty_builder "[?f]" "''P''" "[''Q'', ''R'']"] h
  have "filter (\<lambda>l. take 2 (target l) = id_prefix Director)
        (drop (length (links empty_builder)) (links (add_film (\<lambda>_. 0) ?f empty_builder))) =
       (case directors ?f of [] \<Rightarrow> []
        | d # _ \<Rightarrow> [\<lparr>source = ''f-'' @ number_to_string (fid ?f), target = ''d-'' @ d\<rparr>])
     \<and> \<lparr>source = ''f-'' @ number_to_string (fid ?f), target = ''d-'' @ ''P''\<rparr>
          \<in> set (links (build_graph (\<lambda>_. 0) [?f]))
     \<and> (\<exists>n \<in> set (nodes (build_graph (\<lambda>_. 0) [?f])). nid n = ''d-'' @ ''P'' \<and> ntype n = Director)"
    by blast
  then show ?thesis by (simp add: seven empty_builder_def)
qed

text \<open>
  Claim C9. The built graph is well formed: both ends of every edge are ids of built nodes;
  the id of every node starts with the prefix of its kind (\<open>f-\<close>, \<open>g-\<close>, \<open>d-\<close>), so nodes of
  different kinds never share an id; and no id occurs twice among the nodes.
\<close>

theorem built_graph_well_formed:
  "(\<forall>l \<in> set (snd (init_graph rnd container films)).
      source l \<in> nid ` set (fst (init_graph rnd container films)) \<and>
      target l \<in> nid ` set (fst (init_graph rnd container films)))
   \<and> (\<forall>n \<in> set (fst (init_graph rnd container films)). take 2 (nid n) = id_prefix (ntype n))
   \<and> (\<forall>n \<in> set (fst (init_graph rnd container films)).
        \<forall>m \<in> set (fst (init_graph rnd container films)). ntype n \<noteq> ntype m \<longrightarrow> nid n \<noteq> nid m)
   \<and> distinct (map nid (fst (init_graph rnd container films)))"
proof -
  let ?b = "build_graph rnd films"
  let ?ns = "fst (init_graph rnd container films)"
  have inv: "builder_inv ?b" by (rule builder_inv_build_graph)
  have keys: "map (\<lambda>n. (nid n, ntype n)) ?ns = map (\<lambda>n. (nid n, ntype n)) (nodes ?b)"
    by (rule init_graph_keys)
  have ids: "map nid ?ns = map nid (nodes ?b)"
    using arg_cong [OF keys, of "map fst"] by (simp add: comp_def)
  have idset: "nid ` set ?ns = nid ` set (nodes ?b)"
    using arg_cong [OF ids, of set] by simp
  have pre_b: "\<forall>p \<in> set (map (\<lambda>n. (nid n, ntype n)) (nodes ?b)). take 2 (fst p) = id_prefix (snd p)"
    using inv by (auto simp: builder_inv_def list_all_iff)
  have pre: "\<forall>n \<in> set ?ns. take 2 (nid n) = id_prefix (ntype n)"
  proof
    fix n assume "n \<in> set ?ns"
    then have "(nid n, ntype n) \<in> set (map (\<lambda>n. (nid n, ntype n)) ?ns)" by force
    with keys pre_b show "take 2 (nid n) = id_prefix (ntype n)" by fastforce
  qed
  have edges: "\<forall>l \<in> set (snd (init_graph rnd container films)).
      source l \<in> nid ` set ?ns \<and> target l \<in> nid ` set ?ns"
    using inv unfolding idset init_graph_links by (auto simp: builder_inv_def list_all_iff)
  have kinds: "\<forall>n \<in> set ?ns. \<forall>m \<in> set ?ns. ntype n \<noteq> ntype m \<longrightarrow> nid n \<noteq> nid m"
  proof (intro ballI impI)
    fix n m assume n: "n \<in> set ?ns" and m: "m \<in> set ?ns" and d: "ntype n \<noteq> ntype m"
    have "id_prefix (ntype n) \<noteq> id_prefix (ntype m)"
      using d by (cases "ntype n"; cases "ntype m") (simp_all add: id_prefix_def)
    with pre n m show "nid n \<noteq> nid m" by metis
  qed
  have dist: "distinct (map nid ?ns)"
    using inv unfolding ids by (simp add: builder_inv_def)
  from edges pre kinds dist show ?thesis by blast
qed

theorem built_graph_well_formed_witness:
  "\<lparr>source = ''f-2'', target = ''g-Drama''\<rparr> \<in> set (snd (init_graph (\<lambda>_. 0) None example_films))
   \<and> ''f-2'' \<in> nid ` set (fst (init_graph (\<lambda>_. 0) None example_films))
   \<and> ''g-Drama'' \<in> nid ` set (fst (init_graph (\<lambda>_. 0) None example_films))"
proof -
  have h: "\<lparr>source = ''f-2'', target = ''g-Drama''\<rparr> \<in> set (snd (init_graph (\<lambda>_. 0) None example_films))"
    by (simp add: init_graph_def build_graph_def add_film_def add_genre_def add_director_def
        addNode_def empty_builder_def example_films_def number_to_string_1 number_to_string_2 Let_def)
  from built_graph_well_formed [of "\<lambda>_. 0" None example_films] h
  have "source \<lparr>source = ''f-2'', target = ''g-Drama''\<rparr> \<in> nid ` set (fst (init_graph (\<lambda>_. 0) None example_films))
      \<and> target \<lparr>source = ''f-2'', target = ''g-Drama''\<rparr> \<in> nid ` set (fst (init_graph (\<lambda>_. 0) None example_films))"
    by blast
  with h show ?thesis by simp
qed

section \<open>The simulation step and the pointer handlers\<close>

subsection \<open>Frame lemmas: forces and springs change velocities only\<close>

lemma fold_invariant:
  assumes "P s" and "\<And>a s. a \<in> set xs \<Longrightarrow> P s \<Longrightarrow> P (f a s)"
  shows "P (fold f xs s)"
  using assms by (induction xs arbitrary: s) simp_all

lemma distance_pos: "0 < distance dx dy"
proof -
  define d where "d = sqrt (dx * dx + dy * dy)"
  have "0 \<le> d" by (simp add: d_def)
  then have "0 < (if d = 0 then 1 else d)" by auto
  then show ?thesis unfolding distance_def Let_def d_def .
qed

lemma distance_eq:
  "distance dx dy = (if sqrt (dx * dx + dy * dy) = 0 then 1 else sqrt (dx * dx + dy * dy))"
  by (simp add: distance_def Let_def)

lemma repel_far:
  "\<not> distance (x a - x b) (y a - y b) < 300 \<Longrightarrow> repel a b = (a, b)"
  by (simp add: repel_def Let_def)

lemma repel_near:
  "distance (x a - x b) (y a - y b) < 300 \<Longrightarrow>
   repel a b =
     (a\<lparr>vx := vx a + (x a - x b) / distance (x a - x b) (y a - y b)
                     * (repulsion / (distance (x a - x b) (y a - y b) * distance (x a - x b) (y a - y b))),
        vy := vy a + (y a - y b) / distance (x a - x b) (y a - y b)
                     * (repulsion / (distance (x a - x b) (y a - y b) * distance (x a - x b) (y a - y b)))\<rparr>,
      b\<lparr>vx := vx b - (x a - x b) / distance (x a - x b) (y a - y b)
                     * (repulsion / (distance (x a - x b) (y a - y b) * distance (x a - x b) (y a - y b))),
        vy := vy b - (y a - y b) / distance (x a - x b) (y a - y b)
                     * (repulsion / (distance (x a - x b) (y a - y b) * distance (x a - x b) (y a - y b)))\<rparr>)"
  by (simp add: repel_def Let_def)

lemma at_rest_repel:
  "at_rest (fst (repel a b)) = at_rest a" "at_rest (snd (repel a b)) = at_rest b"
  by (simp_all add: repel_def Let_def at_rest_def)

lemma at_rest_fields:
  "x (at_rest n) = x n" "y (at_rest n) = y n" "radius (at_rest n) = radius n" "nid (at_rest n) = nid n"
  by (simp_all add: at_rest_def)

lemma at_rest_eqD:
  assumes "at_rest n = at_rest m"
  shows "x n = x m" "y n = y m" "radius n = radius m" "nid n = nid m"
  using at_rest_fields [of n] at_rest_fields [of m] assms by simp_all

lemma map_update_same:
  assumes "f v = f (xs ! i)"
  shows "map f (xs[i := v]) = map f xs"
proof (cases "i < length xs")
  case True
  then show ?thesis using assms by (simp add: map_update list_update_same_conv)
next
  case False
  then have "xs[i := v] = xs" by (simp add: list_update_beyond)
  then show ?thesis by simp
qed

lemma length_repel_at: "length (repel_at i j ns) = length ns"
  by (simp add: repel_at_def split: prod.splits)

lemma at_rest_repel_at: "map at_rest (repel_at i j ns) = map at_rest ns"
proof -
  obtain a b where r: "repel (ns ! i) (ns ! j) = (a, b)" by (cases "repel (ns ! i) (ns ! j)")
  have a: "at_rest a = at_rest (ns ! i)" and b: "at_rest b = at_rest (ns ! j)"
    using at_rest_repel [of "ns ! i" "ns ! j"] r by simp_all
  have 1: "map at_rest (ns[i := a]) = map at_rest ns"
    by (rule map_update_same) (rule a)
  have "at_rest b = at_rest (ns[i := a] ! j)"
  proof (cases "i = j \<and> i < length ns")
    case True
    then show ?thesis using a b by simp
  next
    case False
    then have "ns[i := a] ! j = ns ! j"
      by (cases "i = j") (simp_all add: list_update_beyond)
    then show ?thesis using b by simp
  qed
  then have "map at_rest (ns[i := a, j := b]) = map at_rest (ns[i := a])"
    by (rule map_update_same)
  with 1 show ?thesis by (simp add: repel_at_def r)
qed

lemma length_repulsion_loop: "length (repulsion_loop i ns) = length ns"
  unfolding repulsion_loop_def
  by (rule fold_invariant [where P = "\<lambda>s. length s = length ns"]) (simp_all add: length_repel_at)

lemma at_rest_repulsion_loop: "map at_rest (repulsion_loop i ns) = map at_rest ns"
  unfolding repulsion_loop_def
  by (rule fold_invariant [where P = "\<lambda>s. map at_rest s = map at_rest ns"])
    (simp_all add: at_rest_repel_at)

lemma at_rest_center_gravity: "at_rest (center_gravity w h a) = at_rest a"
  by (simp add: center_gravity_def Let_def at_rest_def)

lemma length_force_on: "length (force_on w h d i ns) = length ns"
  by (simp add: force_on_def length_repulsion_loop)

lemma at_rest_force_on: "map at_rest (force_on w h d i ns) = map at_rest ns"
  by (simp add: force_on_def at_rest_repulsion_loop map_update_same at_rest_center_gravity)

lemma length_calculate_forces: "length (calculate_forces w h d ns) = length ns"
  unfolding calculate_forces_def
  by (rule fold_invariant [where P = "\<lambda>s. length s = length ns"]) (simp_all add: length_force_on)

lemma at_rest_calculate_forces: "map at_rest (calculate_forces w h d ns) = map at_rest ns"
  unfolding calculate_forces_def
  by (rule fold_invariant [where P = "\<lambda>s. map at_rest s = map at_rest ns"])
    (simp_all add: at_rest_force_on)

lemma length_spring_link: "length (spring_link d l ns) = length ns"
  by (simp add: spring_link_def Let_def split: option.splits)

lemma at_rest_spring_link: "map at_rest (spring_link d l ns) = map at_rest ns"
  by (simp add: spring_link_def Let_def map_update_same at_rest_def split: option.splits)

lemma length_spring_pass: "length (spring_pass d ls ns) = length ns"
  unfolding spring_pass_def
  by (rule fold_invariant [where P = "\<lambda>s. length s = length ns"]) (simp_all add: length_spring_link)

lemma at_rest_spring_pass: "map at_rest (spring_pass d ls ns) = map at_rest ns"
  unfolding spring_pass_def
  by (rule fold_invariant [where P = "\<lambda>s. map at_rest s = map at_rest ns"])
    (simp_all add: at_rest_spring_link)

lemma length_update_from: "length (update_from w h d hov k ns) = length ns"
  by (induction ns arbitrary: k) simp_all

lemma nth_update_from:
  "i < length ns \<Longrightarrow> update_from w h d hov k ns ! i = update_node w h d hov (k + i) (ns ! i)"
proof (induction ns arbitrary: k i)
  case Nil
  then show ?case by simp
next
  case (Cons n ns)
  show ?case
  proof (cases i)
    case 0
    then show ?thesis by simp
  next
    case (Suc i')
    with Cons.prems have "i' < length ns" by simp
    from Cons.IH [OF this, of "Suc k"] Suc show ?thesis by simp
  qed
qed

lemma nth_physics_step:
  "i < length ns \<Longrightarrow>
   physics_step w h d hov ls ns ! i =
     update_node w h d hov i (spring_pass d ls (calculate_forces w h d ns) ! i)"
  by (simp add: physics_step_def update_positions_def nth_update_from length_spring_pass
      length_calculate_forces)

subsection \<open>Hit test and boundaries\<close>

lemma find_index_None: "find_index P xs = None \<longleftrightarrow> (\<forall>i<length xs. \<not> P (xs ! i))"
proof (induction xs)
  case Nil
  show ?case by simp
next
  case (Cons a xs)
  show ?case
  proof (cases "P a")
    case True
    then show ?thesis by auto
  next
    case False
    have "(\<forall>i<length (a # xs). \<not> P ((a # xs) ! i)) \<longleftrightarrow> (\<forall>i<length xs. \<not> P (xs ! i))"
      using False by (auto simp: nth_Cons split: nat.splits)
    with Cons.IH False show ?thesis by simp
  qed
qed

lemma find_index_Some:
  "find_index P xs = Some i \<longleftrightarrow> (i < length xs \<and> P (xs ! i) \<and> (\<forall>j<i. \<not> P (xs ! j)))"
proof (induction xs arbitrary: i)
  case Nil
  show ?case by simp
next
  case (Cons a xs)
  show ?case
  proof (cases "P a")
    case True
    show ?thesis
    proof (cases i)
      case 0
      with True show ?thesis by simp
    next
      case (Suc i')
      with True show ?thesis by auto
    qed
  next
    case False
    show ?thesis
    proof (cases i)
      case 0
      with False show ?thesis by simp
    next
      case (Suc i')
      have "(\<forall>j<Suc i'. \<not> P ((a # xs) ! j)) \<longleftrightarrow> (\<forall>j<i'. \<not> P (xs ! j))"
        using False by (auto simp: nth_Cons less_Suc_eq_0_disj split: nat.splits)
      with Cons.IH [of i'] False Suc show ?thesis by auto
    qed
  qed
qed

lemma hit_iff_distance:
  assumes "0 \<le> d" "0 \<le> radius n + 10" "(x n - px) * (x n - px) + (y n - py) * (y n - py) = d * d"
  shows "hit px py n \<longleftrightarrow> d < radius n + 10"
proof -
  have "hit px py n \<longleftrightarrow> d\<^sup>2 < (radius n + 10)\<^sup>2"
    using assms(3) by (simp add: hit_def Let_def power2_eq_square)
  also have "\<dots> \<longleftrightarrow> d < radius n + 10"
  proof -
    have "d\<^sup>2 < (radius n + 10)\<^sup>2 \<longleftrightarrow> sqrt (d\<^sup>2) < sqrt ((radius n + 10)\<^sup>2)"
      by (simp only: real_sqrt_less_iff)
    also have "\<dots> \<longleftrightarrow> \<bar>d\<bar> < \<bar>radius n + 10\<bar>"
      by (simp only: real_sqrt_abs)
    also have "\<dots> \<longleftrightarrow> d < radius n + 10"
      using assms(1,2) by simp
    finally show ?thesis .
  qed
  finally show ?thesis .
qed

lemma bounce_x_right:
  assumes "x n > width - (radius n + 10)" "\<not> x n < radius n + 10"
  shows "bounce_x width n = n\<lparr>x := width - (radius n + 10), vx := - vx n\<rparr>"
  using assms by (simp add: bounce_x_def Let_def)

lemma bounce_x_right_pos:
  assumes "x n > width - (radius n + 10)"
  shows "x (bounce_x width n) = width - (radius n + 10)"
  using assms by (simp add: bounce_x_def Let_def)

lemma bounce_x_frame:
  "y (bounce_x width n) = y n" "vy (bounce_x width n) = vy n" "radius (bounce_x width n) = radius n"
  by (simp_all add: bounce_x_def Let_def)

lemma bounce_y_frame:
  "x (bounce_y height n) = x n" "vx (bounce_y height n) = vx n" "radius (bounce_y height n) = radius n"
  by (simp_all add: bounce_y_def Let_def)

subsection \<open>Velocity cap, spring at rest, repulsion bound\<close>

lemma sqrt_225: "sqrt 225 = 15"
proof -
  have "sqrt (15\<^sup>2) = \<bar>15\<bar>" by (rule real_sqrt_abs)
  then show ?thesis by simp
qed

lemma cap_velocity_bound:
  "vx (cap_velocity n) * vx (cap_velocity n) + vy (cap_velocity n) * vy (cap_velocity n) \<le> 225"
proof -
  define s where "s = vx n * vx n + vy n * vy n"
  define v where "v = sqrt s"
  have s0: "0 \<le> s" by (simp add: s_def)
  have vv: "v * v = s" using s0 by (simp add: v_def)
  show ?thesis
  proof (cases "v > maxVelocity")
    case True
    then have vpos: "0 < v" by (simp add: maxVelocity_def)
    then have spos: "s \<noteq> 0" using vv by auto
    have cap: "cap_velocity n = n\<lparr>vx := (vx n / v) * maxVelocity, vy := (vy n / v) * maxVelocity\<rparr>"
      using True by (simp add: cap_velocity_def Let_def v_def s_def)
    have "(vx n / v * 15) * (vx n / v * 15) + (vy n / v * 15) * (vy n / v * 15)
          = 225 * (s / (v * v))"
      using vpos by (simp add: s_def field_simps)
    also have "\<dots> = 225" using vv spos by simp
    finally show ?thesis by (simp add: cap maxVelocity_def)
  next
    case False
    then have v15: "v \<le> 15" by (simp add: maxVelocity_def)
    have v0: "0 \<le> v" by (simp add: v_def s0)
    have "v * v \<le> 15 * 15" using v15 v0 by (intro mult_mono) simp_all
    then have "s \<le> 225" using vv by simp
    moreover have "cap_velocity n = n"
      using False by (simp add: cap_velocity_def Let_def v_def s_def)
    ultimately show ?thesis by (simp add: s_def)
  qed
qed

lemma integrate_bound:
  "vx (integrate hov n) * vx (integrate hov n) + vy (integrate hov n) * vy (integrate hov n) \<le> 225"
proof -
  define c where "c = cap_velocity n"
  define q where "q = vx c * vx c + vy c * vy c"
  have q: "q \<le> 225" "0 \<le> q" using cap_velocity_bound [of n] by (simp_all add: q_def c_def)
  have 1: "(vx c * damping) * (vx c * damping) + (vy c * damping) * (vy c * damping) = q * (damping * damping)"
    by (simp add: q_def algebra_simps)
  have 2: "(vx c * damping * 0.1) * (vx c * damping * 0.1) + (vy c * damping * 0.1) * (vy c * damping * 0.1)
           = q * (damping * damping * 0.01)"
    by (simp add: q_def algebra_simps)
  have d1: "q * (damping * damping) \<le> 225"
    using q by (simp add: damping_def)
  have d2: "q * (damping * damping * 0.01) \<le> 225"
    using q by (simp add: damping_def)
  show ?thesis
    using 1 2 d1 d2 by (simp add: integrate_def Let_def c_def [symmetric])
qed

lemma boundaries_speed:
  "vx (boundaries w h n) * vx (boundaries w h n) + vy (boundaries w h n) * vy (boundaries w h n)
     = vx n * vx n + vy n * vy n"
  by (simp add: boundaries_def bounce_x_def bounce_y_def Let_def)

lemma update_node_bound:
  assumes "d \<noteq> Some i"
  shows "sqrt (vx (update_node w h d hov i n) * vx (update_node w h d hov i n)
             + vy (update_node w h d hov i n) * vy (update_node w h d hov i n)) \<le> maxVelocity"
proof -
  have "vx (update_node w h d hov i n) * vx (update_node w h d hov i n)
             + vy (update_node w h d hov i n) * vy (update_node w h d hov i n) \<le> 225"
    using assms integrate_bound [of hov n] by (simp add: update_node_def boundaries_speed)
  then have "sqrt (vx (update_node w h d hov i n) * vx (update_node w h d hov i n)
             + vy (update_node w h d hov i n) * vy (update_node w h d hov i n)) \<le> sqrt 225"
    by (simp only: real_sqrt_le_iff)
  then show ?thesis by (simp add: sqrt_225 maxVelocity_def)
qed

lemma spring_link_rest:
  assumes "find_index (\<lambda>n. nid n = source l) ns = Some s"
    and "find_index (\<lambda>n. nid n = target l) ns = Some t"
    and "sqrt ((x (ns ! t) - x (ns ! s)) * (x (ns ! t) - x (ns ! s))
             + (y (ns ! t) - y (ns ! s)) * (y (ns ! t) - y (ns ! s))) = springLength"
  shows "spring_link d l ns = ns"
proof -
  have "distance (x (ns ! t) - x (ns ! s)) (y (ns ! t) - y (ns ! s)) = springLength"
    using assms(3) by (simp add: distance_eq springLength_def)
  then show ?thesis
    using assms(1,2) by (simp add: spring_link_def Let_def)
qed

lemma repel_impulse_bound:
  assumes "sqrt ((x a - x b) * (x a - x b) + (y a - y b) * (y a - y b)) = 0
           \<or> 1 \<le> sqrt ((x a - x b) * (x a - x b) + (y a - y b) * (y a - y b))"
  shows "sqrt ((vx (fst (repel a b)) - vx a) * (vx (fst (repel a b)) - vx a)
             + (vy (fst (repel a b)) - vy a) * (vy (fst (repel a b)) - vy a)) \<le> repulsion"
proof -
  define dx where "dx = x a - x b"
  define dy where "dy = y a - y b"
  define s where "s = dx * dx + dy * dy"
  define D where "D = distance dx dy"
  define F where "F = repulsion / (D * D)"
  have s0: "0 \<le> s" by (simp add: s_def)
  have Dpos: "0 < D" by (simp add: D_def distance_pos)
  have D_eq: "D = (if sqrt s = 0 then 1 else sqrt s)" by (simp add: D_def distance_eq s_def)
  have hyp: "sqrt s = 0 \<or> 1 \<le> sqrt s" using assms by (simp add: s_def dx_def dy_def)
  show ?thesis
  proof (cases "D < 300")
    case False
    then have "repel a b = (a, b)" by (simp add: repel_far D_def dx_def dy_def)
    then show ?thesis by (simp add: repulsion_def)
  next
    case True
    then have r: "fst (repel a b) = a\<lparr>vx := vx a + dx / D * F, vy := vy a + dy / D * F\<rparr>"
      by (simp add: repel_near D_def dx_def dy_def F_def)
    have sq: "(dx / D * F) * (dx / D * F) + (dy / D * F) * (dy / D * F) = s / (D * D) * (F * F)"
      using Dpos by (simp add: s_def field_simps)
    have "sqrt (s / (D * D) * (F * F)) \<le> repulsion"
    proof (cases "sqrt s = 0")
      case True
      then have "s = 0" by simp
      then show ?thesis by (simp add: repulsion_def)
    next
      case False
      with hyp have one: "1 \<le> sqrt s" by simp
      have Ds: "D = sqrt s" using False D_eq by simp
      have DD: "D * D = s" using Ds s0 by simp
      have s1: "1 \<le> s" using one DD Ds by (metis mult_mono' zero_le_one mult_1)
      have Fle: "F \<le> repulsion" "0 \<le> F"
        using s1 by (simp_all add: F_def DD repulsion_def field_simps)
      have "s / (D * D) * (F * F) = F * F" using DD s1 by simp
      then have "sqrt (s / (D * D) * (F * F)) = \<bar>F\<bar>" by simp
      with Fle show ?thesis by simp
    qed
    with sq show ?thesis by (simp add: r)
  qed
qed

lemma sqrt_quarter: "sqrt (1 / 4) = 1 / 2"
proof -
  have "sqrt ((1 / 2)\<^sup>2) = \<bar>1 / 2\<bar>" by (rule real_sqrt_abs)
  then show ?thesis by (simp add: power2_eq_square)
qed

subsection \<open>Two-node states and the dragged node\<close>

lemma repulsion_loop_pair: "repulsion_loop 0 [a, b] = [fst (repel a b), snd (repel a b)]"
  by (simp add: repulsion_loop_def repel_at_def split: prod.splits)

lemma calculate_forces_pair:
  assumes "d \<noteq> Some 0" "d \<noteq> Some 1"
  shows "calculate_forces w h d [a, b] =
     [fst (repel (center_gravity w h a) b), center_gravity w h (snd (repel (center_gravity w h a) b))]"
  using assms
  by (simp add: calculate_forces_def force_on_def repulsion_loop_def repel_at_def split: prod.splits)

lemma center_gravity_fields:
  "x (center_gravity w h a) = x a" "y (center_gravity w h a) = y a"
  by (simp_all add: center_gravity_def Let_def)

lemma map_eq_nth:
  assumes "i < length xs" "map f xs = map f ys"
  shows "f (xs ! i) = f (ys ! i)"
proof -
  have "length xs = length ys" using arg_cong [OF assms(2), of length] by simp
  with assms(1) have "map f xs ! i = f (xs ! i)" "map f ys ! i = f (ys ! i)" by simp_all
  with assms(2) show ?thesis by simp
qed

lemma repel_at_keeps:
  assumes kj: "k < j" and ki: "k \<noteq> i" and i: "i < length ns"
    and far: "\<forall>j<i. \<not> distance (x (ns ! j) - x (ns ! i)) (y (ns ! j) - y (ns ! i)) < 300"
    and fr: "map at_rest s = map at_rest ns" and same: "s ! i = ns ! i"
  shows "repel_at k j s ! i = ns ! i"
proof -
  obtain a b where r: "repel (s ! k) (s ! j) = (a, b)" by (cases "repel (s ! k) (s ! j)")
  have upd: "repel_at k j s = s[k := a, j := b]" by (simp add: repel_at_def r)
  have len: "length s = length ns" using arg_cong [OF fr, of length] by simp
  show ?thesis
  proof (cases "j = i")
    case False
    then show ?thesis using ki same by (simp add: upd)
  next
    case True
    with kj have k: "k < i" by simp
    with i len have "k < length s" by simp
    then have "at_rest (s ! k) = at_rest (ns ! k)"
      using fr by (rule map_eq_nth)
    then have "x (s ! k) = x (ns ! k)" "y (s ! k) = y (ns ! k)" by (rule at_rest_eqD)+
    with far k same True have "\<not> distance (x (s ! k) - x (s ! j)) (y (s ! k) - y (s ! j)) < 300"
      by simp
    then have "repel (s ! k) (s ! j) = (s ! k, s ! j)" by (rule repel_far)
    with r have "b = s ! j" by simp
    with True i len same show ?thesis unfolding upd by simp
  qed
qed

lemma repulsion_loop_keeps:
  assumes ki: "k \<noteq> i" and i: "i < length ns"
    and far: "\<forall>j<i. \<not> distance (x (ns ! j) - x (ns ! i)) (y (ns ! j) - y (ns ! i)) < 300"
    and fr: "map at_rest s = map at_rest ns" and same: "s ! i = ns ! i"
  shows "map at_rest (repulsion_loop k s) = map at_rest ns \<and> repulsion_loop k s ! i = ns ! i"
  unfolding repulsion_loop_def
proof (rule fold_invariant [where P = "\<lambda>s'. map at_rest s' = map at_rest ns \<and> s' ! i = ns ! i"])
  show "map at_rest s = map at_rest ns \<and> s ! i = ns ! i" using fr same by simp
next
  fix j s'
  assume j: "j \<in> set [k + 1..<length s]" and P: "map at_rest s' = map at_rest ns \<and> s' ! i = ns ! i"
  from j have kj: "k < j" by simp
  from P have "repel_at k j s' ! i = ns ! i"
    using repel_at_keeps [OF kj ki i far] by blast
  with P show "map at_rest (repel_at k j s') = map at_rest ns \<and> repel_at k j s' ! i = ns ! i"
    by (simp add: at_rest_repel_at)
qed

lemma force_on_keeps:
  assumes i: "i < length ns"
    and far: "\<forall>j<i. \<not> distance (x (ns ! j) - x (ns ! i)) (y (ns ! j) - y (ns ! i)) < 300"
    and fr: "map at_rest s = map at_rest ns" and same: "s ! i = ns ! i"
  shows "map at_rest (force_on w h (Some i) k s) = map at_rest ns \<and> force_on w h (Some i) k s ! i = ns ! i"
proof (cases "k = i")
  case True
  then show ?thesis using fr same by (simp add: force_on_def)
next
  case False
  let ?s1 = "s[k := center_gravity w h (s ! k)]"
  have 1: "map at_rest ?s1 = map at_rest ns"
    using fr by (simp add: map_update_same at_rest_center_gravity)
  have 2: "?s1 ! i = ns ! i" using False same by simp
  from repulsion_loop_keeps [OF False i far 1 2] False show ?thesis
    by (simp add: force_on_def)
qed

lemma calculate_forces_keeps:
  assumes i: "i < length ns"
    and far: "\<forall>j<i. \<not> distance (x (ns ! j) - x (ns ! i)) (y (ns ! j) - y (ns ! i)) < 300"
  shows "calculate_forces w h (Some i) ns ! i = ns ! i"
proof -
  have "map at_rest (calculate_forces w h (Some i) ns) = map at_rest ns
        \<and> calculate_forces w h (Some i) ns ! i = ns ! i"
    unfolding calculate_forces_def
    by (rule fold_invariant [where P = "\<lambda>s'. map at_rest s' = map at_rest ns \<and> s' ! i = ns ! i"])
      (simp_all add: force_on_keeps [OF i far])
  then show ?thesis by simp
qed

lemma spring_link_keeps: "spring_link (Some i) l s ! i = s ! i"
  by (simp add: spring_link_def Let_def split: option.splits)

lemma spring_pass_keeps: "spring_pass (Some i) ls s ! i = s ! i"
  unfolding spring_pass_def
  by (rule fold_invariant [where P = "\<lambda>s'. s' ! i = s ! i"]) (simp_all add: spring_link_keeps)

lemma boundaries_position:
  "x (boundaries w h n) =
     (if (if x n < radius n + 10 then radius n + 10 else x n) > w - (radius n + 10)
      then w - (radius n + 10)
      else (if x n < radius n + 10 then radius n + 10 else x n))"
  "y (boundaries w h n) =
     (if (if y n < radius n + 10 then radius n + 10 else y n) > h - (radius n + 10)
      then h - (radius n + 10)
      else (if y n < radius n + 10 then radius n + 10 else y n))"
  by (simp_all add: boundaries_def bounce_x_def bounce_y_def Let_def)

lemma boundaries_cong:
  assumes "at_rest n = at_rest m"
  shows "x (boundaries w h n) = x (boundaries w h m)" "y (boundaries w h n) = y (boundaries w h m)"
  using at_rest_eqD [OF assms] by (simp_all only: boundaries_position)

lemma boundaries_inside:
  assumes "radius n + 10 \<le> x n" "x n \<le> w - (radius n + 10)"
    "radius n + 10 \<le> y n" "y n \<le> h - (radius n + 10)"
  shows "boundaries w h n = n"
  using assms by (simp add: boundaries_def bounce_x_def bounce_y_def Let_def)

lemma boundaries_stopped:
  assumes "vx n = 0" "vy n = 0"
  shows "vx (boundaries w h n) = 0" "vy (boundaries w h n) = 0"
  using assms by (simp_all add: boundaries_def bounce_x_def bounce_y_def Let_def)

lemma dragged_position:
  assumes "i < length ns"
  shows "x (physics_step w h (Some i) hov ls ns ! i) = x (boundaries w h (ns ! i))"
    "y (physics_step w h (Some i) hov ls ns ! i) = y (boundaries w h (ns ! i))"
proof -
  let ?m = "spring_pass (Some i) ls (calculate_forces w h (Some i) ns)"
  have fr: "map at_rest ?m = map at_rest ns"
    by (simp add: at_rest_spring_pass at_rest_calculate_forces)
  have "i < length ?m"
    using assms by (simp add: length_spring_pass length_calculate_forces)
  then have "at_rest (?m ! i) = at_rest (ns ! i)"
    using fr by (rule map_eq_nth)
  then have "x (boundaries w h (?m ! i)) = x (boundaries w h (ns ! i))"
    "y (boundaries w h (?m ! i)) = y (boundaries w h (ns ! i))"
    by (rule boundaries_cong)+
  then show "x (physics_step w h (Some i) hov ls ns ! i) = x (boundaries w h (ns ! i))"
    "y (physics_step w h (Some i) hov ls ns ! i) = y (boundaries w h (ns ! i))"
    using assms by (simp_all add: nth_physics_step update_node_def)
qed

lemma dragged_velocity:
  assumes i: "i < length ns" and v: "vx (ns ! i) = 0" "vy (ns ! i) = 0"
    and far: "\<forall>j<i. \<not> distance (x (ns ! j) - x (ns ! i)) (y (ns ! j) - y (ns ! i)) < 300"
  shows "vx (physics_step w h (Some i) hov ls ns ! i) = 0"
    "vy (physics_step w h (Some i) hov ls ns ! i) = 0"
proof -
  have "spring_pass (Some i) ls (calculate_forces w h (Some i) ns) ! i = ns ! i"
    by (simp add: spring_pass_keeps calculate_forces_keeps [OF i far])
  then have "physics_step w h (Some i) hov ls ns ! i = boundaries w h (ns ! i)"
    using i by (simp add: nth_physics_step update_node_def)
  then show "vx (physics_step w h (Some i) hov ls ns ! i) = 0"
    "vy (physics_step w h (Some i) hov ls ns ! i) = 0"
    using v by (simp_all add: boundaries_stopped)
qed

lemma distance_axis: "distance dx 0 = (if dx = 0 then 1 else \<bar>dx\<bar>)"
  by (simp add: distance_def)

lemma cap_velocity_exact:
  assumes "sqrt (vx n * vx n + vy n * vy n) > maxVelocity"
  shows "sqrt (vx (cap_velocity n) * vx (cap_velocity n) + vy (cap_velocity n) * vy (cap_velocity n))
         = maxVelocity"
proof -
  define s where "s = vx n * vx n + vy n * vy n"
  define v where "v = sqrt s"
  have s0: "0 \<le> s" by (simp add: s_def)
  have vv: "v * v = s" using s0 by (simp add: v_def)
  from assms have vpos: "0 < v" unfolding maxVelocity_def v_def s_def by linarith
  then have spos: "s \<noteq> 0" using vv by auto
  have cap: "cap_velocity n = n\<lparr>vx := (vx n / v) * maxVelocity, vy := (vy n / v) * maxVelocity\<rparr>"
    using assms by (simp add: cap_velocity_def Let_def v_def s_def)
  have "(vx n / v * 15) * (vx n / v * 15) + (vy n / v * 15) * (vy n / v * 15)
        = 225 * (s / (v * v))"
    using vpos by (simp add: s_def field_simps)
  also have "\<dots> = 225" using vv spos by simp
  finally show ?thesis by (simp add: cap maxVelocity_def sqrt_225)
qed

lemma sqrt_square_nonneg: "0 \<le> a \<Longrightarrow> sqrt (a * a) = a"
  by (simp add: real_sqrt_abs2)

subsection \<open>Drag exemption\<close>

text \<open>
  Claim C1, as stated, fails on the code in two ways. The boundary pass runs for every node,
  the dragged one included: a dragged node at \<open>x = 0\<close> (the pointer on the left edge) is moved
  to \<open>x = radius + 10 = 17\<close> by the step. And the repulsion loop subtracts the impulse from the
  later node \<open>b\<close> of a pair without testing whether \<open>b\<close> is the dragged node: a dragged node
  at index 1, two units from node 0, leaves the step with \<open>vx = 375\<close>.
\<close>

theorem drag_exemption_counterexample:
  "x (genre_node ''Drama'' 0 300) = 0
   \<and> x (nodesRef (animate (Some (800, 600))
          \<lparr>nodesRef = [genre_node ''Drama'' 0 300], linksRef = [], draggingRef = Some 0,
           mouseRef = (0, 300), hoveredNode = None\<rparr>) ! 0) = 17
   \<and> vx (genre_node ''Crime'' 102 100) = 0
   \<and> vx (nodesRef (animate (Some (800, 600))
          \<lparr>nodesRef = [genre_node ''Drama'' 100 100, genre_node ''Crime'' 102 100], linksRef = [],
           draggingRef = Some 1, mouseRef = (102, 100), hoveredNode = None\<rparr>) ! 1) = 375"
proof -
  have "x (physics_step 800 600 (Some 0) None [] [genre_node ''Drama'' 0 300] ! 0)
        = x (boundaries 800 600 ([genre_node ''Drama'' 0 300] ! 0))"
    by (rule dragged_position) simp
  then have p: "x (physics_step 800 600 (Some 0) None [] [genre_node ''Drama'' 0 300] ! 0) = 17"
    by (simp add: boundaries_position genre_node_def)
  have "physics_step 800 600 (Some 1) None [] [genre_node ''Drama'' 100 100, genre_node ''Crime'' 102 100] ! 1
        = boundaries 800 600 (calculate_forces 800 600 (Some 1) [genre_node ''Drama'' 100 100, genre_node ''Crime'' 102 100] ! 1)"
    by (simp add: nth_physics_step update_node_def spring_pass_def)
  also have "calculate_forces 800 600 (Some 1) [genre_node ''Drama'' 100 100, genre_node ''Crime'' 102 100] ! 1
      = snd (repel (center_gravity 800 600 (genre_node ''Drama'' 100 100)) (genre_node ''Crime'' 102 100))"
    by (simp add: calculate_forces_def force_on_def repulsion_loop_def repel_at_def split: prod.splits)
  finally have v: "vx (physics_step 800 600 (Some 1) None [] [genre_node ''Drama'' 100 100, genre_node ''Crime'' 102 100] ! 1) = 375"
    by (simp add: boundaries_def bounce_x_def bounce_y_def Let_def repel_def center_gravity_def
        genre_node_def distance_def repulsion_def)
  from p v show ?thesis by (simp add: animate_def genre_node_def)
qed

text \<open>
  Claim C1, amended. While node \<open>i\<close> is the dragged node, one simulation step changes its
  position by the boundary clamp only: the position after the step is that of
  \<open>boundaries\<close> applied to the node before the step, so it is unchanged when the node lies
  inside the box \<open>[radius + 10, width - radius - 10] \<times> [radius + 10, height - radius - 10]\<close>.
  Its velocity, when zero before the step, is zero after the step provided no node of smaller
  index is within the repulsion cutoff of it. A pointer move sets its position to the pointer
  and its velocity to zero.
\<close>

theorem drag_exemption_amended:
  assumes "draggingRef s = Some i" and "i < length (nodesRef s)"
  shows
   "x (nodesRef (animate (Some (w, h)) s) ! i) = x (boundaries w h (nodesRef s ! i))
    \<and> y (nodesRef (animate (Some (w, h)) s) ! i) = y (boundaries w h (nodesRef s ! i))
    \<and> (radius (nodesRef s ! i) + 10 \<le> x (nodesRef s ! i)
         \<and> x (nodesRef s ! i) \<le> w - (radius (nodesRef s ! i) + 10)
         \<and> radius (nodesRef s ! i) + 10 \<le> y (nodesRef s ! i)
         \<and> y (nodesRef s ! i) \<le> h - (radius (nodesRef s ! i) + 10)
        \<longrightarrow> x (nodesRef (animate (Some (w, h)) s) ! i) = x (nodesRef s ! i)
          \<and> y (nodesRef (animate (Some (w, h)) s) ! i) = y (nodesRef s ! i))
    \<and> (vx (nodesRef s ! i) = 0 \<and> vy (nodesRef s ! i) = 0
         \<and> (\<forall>j<i. \<not> distance (x (nodesRef s ! j) - x (nodesRef s ! i))
                               (y (nodesRef s ! j) - y (nodesRef s ! i)) < 300)
        \<longrightarrow> vx (nodesRef (animate (Some (w, h)) s) ! i) = 0
          \<and> vy (nodesRef (animate (Some (w, h)) s) ! i) = 0)
    \<and> nodesRef (handleMouseMove px py s) ! i = (nodesRef s ! i)\<lparr>x := px, y := py, vx := 0, vy := 0\<rparr>"
proof -
  let ?S = "physics_step w h (Some i) (hoveredNode s) (linksRef s) (nodesRef s)"
  have a: "nodesRef (animate (Some (w, h)) s) = ?S"
    using assms(1) by (simp add: animate_def)
  have pos: "x (?S ! i) = x (boundaries w h (nodesRef s ! i))"
    "y (?S ! i) = y (boundaries w h (nodesRef s ! i))"
    using assms(2) by (rule dragged_position)+
  have inside: "x (?S ! i) = x (nodesRef s ! i) \<and> y (?S ! i) = y (nodesRef s ! i)"
    if "radius (nodesRef s ! i) + 10 \<le> x (nodesRef s ! i)
         \<and> x (nodesRef s ! i) \<le> w - (radius (nodesRef s ! i) + 10)
         \<and> radius (nodesRef s ! i) + 10 \<le> y (nodesRef s ! i)
         \<and> y (nodesRef s ! i) \<le> h - (radius (nodesRef s ! i) + 10)"
    using that pos by (simp add: boundaries_inside)
  have vel: "vx (?S ! i) = 0 \<and> vy (?S ! i) = 0"
    if "vx (nodesRef s ! i) = 0 \<and> vy (nodesRef s ! i) = 0
         \<and> (\<forall>j<i. \<not> distance (x (nodesRef s ! j) - x (nodesRef s ! i))
                               (y (nodesRef s ! j) - y (nodesRef s ! i)) < 300)"
    using that dragged_velocity [OF assms(2), of w h "hoveredNode s" "linksRef s"] by blast
  have move: "nodesRef (handleMouseMove px py s) ! i
      = (nodesRef s ! i)\<lparr>x := px, y := py, vx := 0, vy := 0\<rparr>"
    using assms by (simp add: handleMouseMove_def Let_def)
  from pos inside vel move show ?thesis unfolding a by blast
qed

theorem drag_exemption_amended_witness:
  "x (nodesRef (animate (Some (800, 600))
        \<lparr>nodesRef = [genre_node ''Drama'' 20 300, genre_node ''Crime'' 420 300],
         linksRef = [\<lparr>source = ''g-Drama'', target = ''g-Crime''\<rparr>], draggingRef = Some 1,
         mouseRef = (420, 300), hoveredNode = None\<rparr>) ! 1) = 420
   \<and> vx (nodesRef (animate (Some (800, 600))
        \<lparr>nodesRef = [genre_node ''Drama'' 20 300, genre_node ''Crime'' 420 300],
         linksRef = [\<lparr>source = ''g-Drama'', target = ''g-Crime''\<rparr>], draggingRef = Some 1,
         mouseRef = (420, 300), hoveredNode = None\<rparr>) ! 1) = 0"
proof -
  let ?s = "\<lparr>nodesRef = [genre_node ''Drama'' 20 300, genre_node ''Crime'' 420 300],
         linksRef = [\<lparr>source = ''g-Drama'', target = ''g-Crime''\<rparr>], draggingRef = Some 1,
         mouseRef = (420, 300), hoveredNode = None\<rparr>"
  have h1: "draggingRef ?s = Some 1" by simp
  have h2: "1 < length (nodesRef ?s)" by simp
  have inside: "radius (nodesRef ?s ! 1) + 10 \<le> x (nodesRef ?s ! 1)
         \<and> x (nodesRef ?s ! 1) \<le> 800 - (radius (nodesRef ?s ! 1) + 10)
         \<and> radius (nodesRef ?s ! 1) + 10 \<le> y (nodesRef ?s ! 1)
         \<and> y (nodesRef ?s ! 1) \<le> 600 - (radius (nodesRef ?s ! 1) + 10)"
    by (simp add: genre_node_def)
  have far: "vx (nodesRef ?s ! 1) = 0 \<and> vy (nodesRef ?s ! 1) = 0
         \<and> (\<forall>j<1. \<not> distance (x (nodesRef ?s ! j) - x (nodesRef ?s ! 1))
                               (y (nodesRef ?s ! j) - y (nodesRef ?s ! 1)) < 300)"
    by (simp add: genre_node_def distance_axis)
  from drag_exemption_amended [OF h1 h2, of 800 600 420 300] inside far
  have "x (nodesRef (animate (Some (800, 600)) ?s) ! 1) = x (nodesRef ?s ! 1)
      \<and> vx (nodesRef (animate (Some (800, 600)) ?s) ! 1) = 0"
    by blast
  then show ?thesis by (simp add: genre_node_def)
qed

subsection \<open>The distance used by the forces\<close>

text \<open>
  Claim C2, as stated, fails on the code: \<^verbatim>\<open>Math.sqrt(...) || 1\<close> replaces only a distance
  of exactly 0. Two nodes half a unit apart are repelled with the distance 1/2, not
  \<open>max (1/2) 1\<close>, and the impulse is \<open>1500 / (1/4) = 6000\<close>, above the repulsion coefficient.
\<close>

theorem distance_floor_counterexample:
  "sqrt ((1 / 2) * (1 / 2) + 0 * 0) = 1 / 2
   \<and> distance (1 / 2) 0 = 1 / 2
   \<and> distance (1 / 2) 0 \<noteq> max (sqrt ((1 / 2) * (1 / 2) + 0 * 0)) 1
   \<and> vx (fst (repel (genre_node ''Drama'' (1 / 2) 0) (genre_node ''Crime'' 0 0))) = 6000
   \<and> repulsion < 6000"
  by (simp add: distance_def repel_def Let_def sqrt_quarter repulsion_def genre_node_def)

text \<open>
  Claim C2, amended. The distance used as denominator (in the repulsion and in the spring
  pass) is the Euclidean distance, except that a distance of exactly 0 is replaced by 1; it is
  always positive, so no division by zero occurs. When the Euclidean distance is 0 or at
  least 1 it equals \<open>max distance 1\<close>, the force \<open>repulsion / distance\<^sup>2\<close> is at most the
  repulsion coefficient, and so is the magnitude of the impulse that \<open>repel\<close> adds.
\<close>

theorem distance_zero_guard:
  "0 < distance dx dy
   \<and> distance dx dy = (if sqrt (dx * dx + dy * dy) = 0 then 1 else sqrt (dx * dx + dy * dy))
   \<and> (sqrt (dx * dx + dy * dy) = 0 \<or> 1 \<le> sqrt (dx * dx + dy * dy)
        \<longrightarrow> distance dx dy = max (sqrt (dx * dx + dy * dy)) 1
          \<and> repulsion / (distance dx dy * distance dx dy) \<le> repulsion)
   \<and> (sqrt ((x a - x b) * (x a - x b) + (y a - y b) * (y a - y b)) = 0
        \<or> 1 \<le> sqrt ((x a - x b) * (x a - x b) + (y a - y b) * (y a - y b))
        \<longrightarrow> sqrt ((vx (fst (repel a b)) - vx a) * (vx (fst (repel a b)) - vx a)
                + (vy (fst (repel a b)) - vy a) * (vy (fst (repel a b)) - vy a)) \<le> repulsion)"
proof -
  define d where "d = sqrt (dx * dx + dy * dy)"
  have D: "distance dx dy = (if d = 0 then 1 else d)"
    unfolding d_def by (rule distance_eq)
  have d0: "0 \<le> d" by (simp add: d_def)
  have m: "distance dx dy = max d 1 \<and> repulsion / (distance dx dy * distance dx dy) \<le> repulsion"
    if "d = 0 \<or> 1 \<le> d"
  proof (cases "d = 0")
    case True
    then show ?thesis by (simp add: D repulsion_def)
  next
    case False
    with that have one: "1 \<le> d" by simp
    then have "1 * 1 \<le> d * d" by (intro mult_mono) simp_all
    then have "repulsion / (d * d) \<le> repulsion"
      by (simp add: repulsion_def field_simps)
    with one False show ?thesis by (simp add: D)
  qed
  from distance_pos [of dx dy] D m repel_impulse_bound [of a b]
  show ?thesis unfolding d_def by blast
qed

theorem distance_zero_guard_witness:
  "distance 2 0 = 2 \<and> repulsion / (distance 2 0 * distance 2 0) \<le> repulsion
   \<and> sqrt ((vx (fst (repel (genre_node ''Drama'' 2 0) (genre_node ''Crime'' 0 0))) - 0)
           * (vx (fst (repel (genre_node ''Drama'' 2 0) (genre_node ''Crime'' 0 0))) - 0)
         + (vy (fst (repel (genre_node ''Drama'' 2 0) (genre_node ''Crime'' 0 0))) - 0)
           * (vy (fst (repel (genre_node ''Drama'' 2 0) (genre_node ''Crime'' 0 0))) - 0)) \<le> repulsion"
proof -
  have h1: "sqrt (2 * 2 + 0 * 0) = 0 \<or> 1 \<le> sqrt (2 * 2 + 0 * 0)" by simp
  have h2: "sqrt ((x (genre_node ''Drama'' 2 0) - x (genre_node ''Crime'' 0 0))
                   * (x (genre_node ''Drama'' 2 0) - x (genre_node ''Crime'' 0 0))
                 + (y (genre_node ''Drama'' 2 0) - y (genre_node ''Crime'' 0 0))
                   * (y (genre_node ''Drama'' 2 0) - y (genre_node ''Crime'' 0 0))) = 0
            \<or> 1 \<le> sqrt ((x (genre_node ''Drama'' 2 0) - x (genre_node ''Crime'' 0 0))
                   * (x (genre_node ''Drama'' 2 0) - x (genre_node ''Crime'' 0 0))
                 + (y (genre_node ''Drama'' 2 0) - y (genre_node ''Crime'' 0 0))
                   * (y (genre_node ''Drama'' 2 0) - y (genre_node ''Crime'' 0 0)))"
    by (simp add: genre_node_def)
  from distance_zero_guard [of 2 0 "genre_node ''Drama'' 2 0" "genre_node ''Crime'' 0 0"] h1 h2
  have "distance 2 0 = max (sqrt (2 * 2 + 0 * 0)) 1
      \<and> repulsion / (distance 2 0 * distance 2 0) \<le> repulsion
      \<and> sqrt ((vx (fst (repel (genre_node ''Drama'' 2 0) (genre_node ''Crime'' 0 0))) - vx (genre_node ''Drama'' 2 0))
           * (vx (fst (repel (genre_node ''Drama'' 2 0) (genre_node ''Crime'' 0 0))) - vx (genre_node ''Drama'' 2 0))
         + (vy (fst (repel (genre_node ''Drama'' 2 0) (genre_node ''Crime'' 0 0))) - vy (genre_node ''Drama'' 2 0))
           * (vy (fst (repel (genre_node ''Drama'' 2 0) (genre_node ''Crime'' 0 0))) - vy (genre_node ''Drama'' 2 0))) \<le> repulsion"
    by blast
  moreover have "vx (genre_node ''Drama'' 2 0) = 0" "vy (genre_node ''Drama'' 2 0) = 0"
    by (simp_all add: genre_node_def)
  ultimately show ?thesis by (simp add: repulsion_def)
qed

subsection \<open>Hit test\<close>

text \<open>
  Claim C4. The hit test returns nothing exactly when no node is hit, and returns index \<open>i\<close>
  exactly when node \<open>i\<close> is hit and no node before it in the array is: the first match in
  insertion order. A node is hit iff the squared distance from the pointer to its centre is
  strictly less than \<open>(radius + 10)\<^sup>2\<close>; for a pointer at distance \<open>d\<close> from the centre
  (and \<open>radius + 10 \<ge> 0\<close>) that is \<open>d < radius + 10\<close>.
\<close>

theorem hit_test_first_match:
  "(hit_test ns px py = None \<longleftrightarrow> (\<forall>i<length ns. \<not> hit px py (ns ! i)))
   \<and> (hit_test ns px py = Some i \<longleftrightarrow>
        i < length ns \<and> hit px py (ns ! i) \<and> (\<forall>j<i. \<not> hit px py (ns ! j)))
   \<and> (hit px py n \<longleftrightarrow> (x n - px) * (x n - px) + (y n - py) * (y n - py) < (radius n + 10)\<^sup>2)
   \<and> (0 \<le> d \<and> 0 \<le> radius n + 10 \<and> (x n - px) * (x n - px) + (y n - py) * (y n - py) = d * d
        \<longrightarrow> (hit px py n \<longleftrightarrow> d < radius n + 10))"
  using hit_iff_distance [of d n px py]
  by (simp add: hit_test_def find_index_None find_index_Some hit_def Let_def)

theorem hit_test_first_match_witness:
  "hit_test [genre_node ''Drama'' 0 0, genre_node ''Crime'' 5 0] 3 0 = Some 0
   \<and> hit_test [genre_node ''Drama'' 0 0, genre_node ''Crime'' 5 0] 21 0 = Some 1
   \<and> hit_test [genre_node ''Drama'' 0 0, genre_node ''Crime'' 5 0] 22 0 = None
   \<and> hit (16.99) 0 (genre_node ''Drama'' 0 0) \<and> \<not> hit (17.01) 0 (genre_node ''Drama'' 0 0)"
proof -
  let ?ns = "[genre_node ''Drama'' 0 0, genre_node ''Crime'' 5 0]"
  have a: "0 < length ?ns \<and> hit 3 0 (?ns ! 0) \<and> (\<forall>j<0. \<not> hit 3 0 (?ns ! j))"
    by (simp add: hit_def genre_node_def)
  have b: "1 < length ?ns \<and> hit 21 0 (?ns ! 1) \<and> (\<forall>j<1. \<not> hit 21 0 (?ns ! j))"
    by (simp add: hit_def genre_node_def)
  have c: "\<forall>i<length ?ns. \<not> hit 22 0 (?ns ! i)"
    by (simp add: hit_def genre_node_def less_Suc_eq)
  have d1: "0 \<le> (16.99::real) \<and> 0 \<le> radius (genre_node ''Drama'' 0 0) + 10
      \<and> (x (genre_node ''Drama'' 0 0) - 16.99) * (x (genre_node ''Drama'' 0 0) - 16.99)
         + (y (genre_node ''Drama'' 0 0) - 0) * (y (genre_node ''Drama'' 0 0) - 0) = 16.99 * 16.99"
    by (simp add: genre_node_def)
  have d2: "0 \<le> (17.01::real) \<and> 0 \<le> radius (genre_node ''Drama'' 0 0) + 10
      \<and> (x (genre_node ''Drama'' 0 0) - 17.01) * (x (genre_node ''Drama'' 0 0) - 17.01)
         + (y (genre_node ''Drama'' 0 0) - 0) * (y (genre_node ''Drama'' 0 0) - 0) = 17.01 * 17.01"
    by (simp add: genre_node_def)
  have r: "(16.99::real) < radius (genre_node ''Drama'' 0 0) + 10"
    "\<not> (17.01::real) < radius (genre_node ''Drama'' 0 0) + 10"
    by (simp_all add: genre_node_def)
  from hit_test_first_match [of ?ns 3 0 0] a
  have 1: "hit_test ?ns 3 0 = Some 0" by blast
  from hit_test_first_match [of ?ns 21 0 1] b
  have 2: "hit_test ?ns 21 0 = Some 1" by blast
  from hit_test_first_match [of ?ns 22 0] c
  have 3: "hit_test ?ns 22 0 = None" by blast
  from hit_test_first_match [of _ "16.99" 0 _ "genre_node ''Drama'' 0 0" "16.99"] d1 r(1)
  have 4: "hit (16.99) 0 (genre_node ''Drama'' 0 0)" by blast
  from hit_test_first_match [of _ "17.01" 0 _ "genre_node ''Drama'' 0 0" "17.01"] d2 r(2)
  have 5: "\<not> hit (17.01) 0 (genre_node ''Drama'' 0 0)" by blast
  from 1 2 3 4 5 show ?thesis by blast
qed

subsection \<open>Boundary bounce\<close>

text \<open>
  Claim C5, as stated, fails on the code when the viewport is narrower than
  \<open>2 * (radius + 10)\<close>: a node right of the right bound can also be left of the left bound,
  both tests fire in turn, and the velocity is negated twice. With width 20 and radius 7, a
  node integrated to \<open>x = 10\<close> with \<open>vx = 8.5\<close> ends at \<open>x = 3 = width - radius - 10\<close> with
  \<open>vx = 8.5\<close>, not \<open>-8.5\<close>.
\<close>

theorem right_bounce_counterexample:
  "x (integrate None (genre_node ''Drama'' 1.5 300\<lparr>vx := 10\<rparr>)) = 10
   \<and> vx (integrate None (genre_node ''Drama'' 1.5 300\<lparr>vx := 10\<rparr>)) = 8.5
   \<and> x (integrate None (genre_node ''Drama'' 1.5 300\<lparr>vx := 10\<rparr>))
       > 20 - radius (integrate None (genre_node ''Drama'' 1.5 300\<lparr>vx := 10\<rparr>)) - 10
   \<and> x (update_node 20 600 None None 0 (genre_node ''Drama'' 1.5 300\<lparr>vx := 10\<rparr>)) = 20 - 7 - 10
   \<and> vx (update_node 20 600 None None 0 (genre_node ''Drama'' 1.5 300\<lparr>vx := 10\<rparr>)) = 8.5"
proof -
  have "sqrt ((10::real) * 10) = 10" by (rule sqrt_square_nonneg) simp
  then have i: "integrate None (genre_node ''Drama'' 1.5 300\<lparr>vx := 10\<rparr>)
        = genre_node ''Drama'' 10 300\<lparr>vx := 8.5\<rparr>"
    by (simp add: integrate_def cap_velocity_def Let_def genre_node_def maxVelocity_def damping_def)
  show ?thesis
    unfolding update_node_def i
    by (simp add: boundaries_def bounce_x_def bounce_y_def Let_def genre_node_def)
qed

text \<open>
  Claim C5, amended. For a node with \<open>x > width - (radius + 10)\<close>, the boundary pass sets
  \<open>x\<close> to exactly \<open>width - (radius + 10)\<close>, and the handling of the \<open>x\<close> bounds leaves \<open>y\<close>
  and \<open>vy\<close> unchanged; the sign of \<open>vx\<close> is flipped provided the node is not also left of the
  left bound (\<open>radius + 10 \<le> x\<close>, which always holds when the viewport is at least
  \<open>2 * (radius + 10)\<close> wide). The same holds in the step for a node that is not dragged, with
  \<open>n\<close> the node after integration.
\<close>

theorem right_bounce_amended:
  assumes "x n > width - (radius n + 10)"
  shows "x (bounce_x width n) = width - (radius n + 10)
    \<and> x (boundaries width height n) = width - (radius n + 10)
    \<and> y (bounce_x width n) = y n \<and> vy (bounce_x width n) = vy n
    \<and> (radius n + 10 \<le> x n \<longrightarrow>
         bounce_x width n = n\<lparr>x := width - (radius n + 10), vx := - vx n\<rparr>
         \<and> vx (boundaries width height n) = - vx n)
    \<and> (dragging \<noteq> Some i \<and> n = integrate hov n0 \<longrightarrow>
         x (update_node width height dragging hov i n0) = width - (radius n + 10)
         \<and> (radius n + 10 \<le> x n \<longrightarrow> vx (update_node width height dragging hov i n0) = - vx n))"
proof -
  have 1: "x (bounce_x width n) = width - (radius n + 10)"
    using assms by (rule bounce_x_right_pos)
  have 2: "x (boundaries width height n) = width - (radius n + 10)"
    using 1 by (simp add: boundaries_def bounce_y_frame)
  have 3: "bounce_x width n = n\<lparr>x := width - (radius n + 10), vx := - vx n\<rparr>
         \<and> vx (boundaries width height n) = - vx n" if "radius n + 10 \<le> x n"
    using that assms by (simp add: boundaries_def bounce_y_frame bounce_x_right)
  have 4: "update_node width height dragging hov i n0 = boundaries width height n"
    if "dragging \<noteq> Some i \<and> n = integrate hov n0"
    using that by (simp add: update_node_def)
  from 1 2 3 4 bounce_x_frame(1,2) [of width n] show ?thesis by metis
qed

theorem right_bounce_amended_witness:
  "x (boundaries 800 600 (genre_node ''Drama'' 790 300\<lparr>vx := 3\<rparr>)) = 783
   \<and> vx (boundaries 800 600 (genre_node ''Drama'' 790 300\<lparr>vx := 3\<rparr>)) = - 3
   \<and> y (bounce_x 800 (genre_node ''Drama'' 790 300\<lparr>vx := 3\<rparr>)) = 300"
proof -
  let ?n = "genre_node ''Drama'' 790 300\<lparr>vx := 3\<rparr>"
  have h: "x ?n > 800 - (radius ?n + 10)" by (simp add: genre_node_def)
  have g: "radius ?n + 10 \<le> x ?n" by (simp add: genre_node_def)
  from right_bounce_amended [OF h, of 600] g
  have "x (boundaries 800 600 ?n) = 800 - (radius ?n + 10)
      \<and> vx (boundaries 800 600 ?n) = - vx ?n \<and> y (bounce_x 800 ?n) = y ?n"
    by blast
  then show ?thesis by (simp add: genre_node_def)
qed

subsection \<open>Repulsion symmetry\<close>

text \<open>
  Claim C6. In a state of two nodes \<open>a\<close>, \<open>b\<close>, neither dragged, at a distance \<open>D\<close> below the
  cutoff 300, the repulsion loop adds the impulse \<open>(fx, fy)\<close> to the velocity of \<open>a\<close> and
  \<open>(-fx, -fy)\<close> to that of \<open>b\<close>: opposite vectors of equal magnitude. In the whole force
  phase the only other change of the velocities is the centre-gravity term of each node.
\<close>

theorem repulsion_symmetry:
  assumes "D = distance (x a - x b) (y a - y b)" and "D < 300"
    and "fx = (x a - x b) / D * (repulsion / (D * D))"
    and "fy = (y a - y b) / D * (repulsion / (D * D))"
    and "dragging \<noteq> Some 0" and "dragging \<noteq> Some 1"
  shows "repulsion_loop 0 [a, b] =
           [a\<lparr>vx := vx a + fx, vy := vy a + fy\<rparr>, b\<lparr>vx := vx b - fx, vy := vy b - fy\<rparr>]
    \<and> calculate_forces width height dragging [a, b] =
           [a\<lparr>vx := vx a + (width / 2 - x a) * centerForce + fx,
              vy := vy a + (height / 2 - y a) * centerForce + fy\<rparr>,
            b\<lparr>vx := vx b - fx + (width / 2 - x b) * centerForce,
              vy := vy b - fy + (height / 2 - y b) * centerForce\<rparr>]
    \<and> sqrt (fx * fx + fy * fy) = sqrt ((- fx) * (- fx) + (- fy) * (- fy))"
proof -
  have near: "distance (x a - x b) (y a - y b) < 300" using assms(1,2) by simp
  have r: "repel a b = (a\<lparr>vx := vx a + fx, vy := vy a + fy\<rparr>, b\<lparr>vx := vx b - fx, vy := vy b - fy\<rparr>)"
    using repel_near [OF near] assms(1,3,4) by simp
  have 1: "repulsion_loop 0 [a, b] =
           [a\<lparr>vx := vx a + fx, vy := vy a + fy\<rparr>, b\<lparr>vx := vx b - fx, vy := vy b - fy\<rparr>]"
    by (simp add: repulsion_loop_pair r)
  let ?g = "center_gravity width height a"
  have near': "distance (x ?g - x b) (y ?g - y b) < 300"
    using near by (simp add: center_gravity_fields)
  have r': "repel ?g b = (?g\<lparr>vx := vx ?g + fx, vy := vy ?g + fy\<rparr>, b\<lparr>vx := vx b - fx, vy := vy b - fy\<rparr>)"
    using repel_near [OF near'] assms(1,3,4) by (simp add: center_gravity_fields)
  have 2: "calculate_forces width height dragging [a, b] =
           [a\<lparr>vx := vx a + (width / 2 - x a) * centerForce + fx,
              vy := vy a + (height / 2 - y a) * centerForce + fy\<rparr>,
            b\<lparr>vx := vx b - fx + (width / 2 - x b) * centerForce,
              vy := vy b - fy + (height / 2 - y b) * centerForce\<rparr>]"
    using assms(5,6) by (simp add: calculate_forces_pair r') (simp add: center_gravity_def Let_def)
  from 1 2 show ?thesis by simp
qed

theorem repulsion_symmetry_witness:
  "repulsion_loop 0 [genre_node ''Drama'' 0 0, genre_node ''Crime'' 2 0] =
     [genre_node ''Drama'' 0 0\<lparr>vx := - 375\<rparr>, genre_node ''Crime'' 2 0\<lparr>vx := 375\<rparr>]"
proof -
  let ?a = "genre_node ''Drama'' 0 0" and ?b = "genre_node ''Crime'' 2 0"
  have D: "2 = distance (x ?a - x ?b) (y ?a - y ?b)"
    by (simp add: genre_node_def distance_axis)
  have fx: "- 375 = (x ?a - x ?b) / 2 * (repulsion / (2 * 2))"
    by (simp add: genre_node_def repulsion_def)
  have fy: "0 = (y ?a - y ?b) / 2 * (repulsion / (2 * 2))"
    by (simp add: genre_node_def)
  have lt: "(2::real) < 300" by simp
  have nd: "None \<noteq> Some (0::nat)" "None \<noteq> Some (1::nat)" by simp_all
  from repulsion_symmetry [OF D lt fx fy nd]
  have "repulsion_loop 0 [?a, ?b] =
           [?a\<lparr>vx := vx ?a + (- 375), vy := vy ?a + 0\<rparr>, ?b\<lparr>vx := vx ?b - (- 375), vy := vy ?b - 0\<rparr>]"
    by blast
  then show ?thesis by (simp add: genre_node_def)
qed

subsection \<open>Spring equilibrium\<close>

text \<open>
  Claim C7. When the two ends of a link are found in the array and lie exactly
  \<open>springLength = 100\<close> apart, the spring pass for that link changes nothing: both ends
  receive a zero impulse.
\<close>

theorem spring_equilibrium:
  assumes "find_index (\<lambda>n. nid n = source l) ns = Some s"
    and "find_index (\<lambda>n. nid n = target l) ns = Some t"
    and "sqrt ((x (ns ! t) - x (ns ! s)) * (x (ns ! t) - x (ns ! s))
             + (y (ns ! t) - y (ns ! s)) * (y (ns ! t) - y (ns ! s))) = springLength"
  shows "spring_link dragging l ns = ns \<and> spring_pass dragging [l] ns = ns"
  using spring_link_rest [OF assms] by (simp add: spring_pass_def)

theorem spring_equilibrium_witness:
  "spring_pass None [\<lparr>source = ''g-Drama'', target = ''g-Crime''\<rparr>]
     [genre_node ''Drama'' 200 300, genre_node ''Crime'' 300 300]
   = [genre_node ''Drama'' 200 300, genre_node ''Crime'' 300 300]"
proof -
  let ?l = "\<lparr>source = ''g-Drama'', target = ''g-Crime''\<rparr>"
  let ?ns = "[genre_node ''Drama'' 200 300, genre_node ''Crime'' 300 300]"
  have s: "find_index (\<lambda>n. nid n = source ?l) ?ns = Some 0"
    by (simp add: genre_node_def)
  have t: "find_index (\<lambda>n. nid n = target ?l) ?ns = Some 1"
    by (simp add: genre_node_def)
  have "sqrt ((100::real) * 100) = 100" by (rule sqrt_square_nonneg) simp
  then have d: "sqrt ((x (?ns ! 1) - x (?ns ! 0)) * (x (?ns ! 1) - x (?ns ! 0))
             + (y (?ns ! 1) - y (?ns ! 0)) * (y (?ns ! 1) - y (?ns ! 0))) = springLength"
    by (simp add: genre_node_def springLength_def)
  from spring_equilibrium [OF s t d, of None] show ?thesis by blast
qed

subsection \<open>Terminal velocity\<close>

text \<open>
  Claim C10. After the position update of a step (integration and boundaries), every node
  that is not the dragged one has a velocity of magnitude at most \<open>maxVelocity = 15\<close>; this
  holds for the update pass on any array and hence for the whole step. The cap rescales a
  larger velocity to magnitude exactly 15.
\<close>

theorem velocity_cap_invariant:
  assumes "i < length ns" and "dragging \<noteq> Some i"
  shows "sqrt (vx (update_positions width height dragging hov ns ! i)
                * vx (update_positions width height dragging hov ns ! i)
              + vy (update_positions width height dragging hov ns ! i)
                * vy (update_positions width height dragging hov ns ! i)) \<le> maxVelocity
    \<and> sqrt (vx (physics_step width height dragging hov ls ns ! i)
                * vx (physics_step width height dragging hov ls ns ! i)
              + vy (physics_step width height dragging hov ls ns ! i)
                * vy (physics_step width height dragging hov ls ns ! i)) \<le> maxVelocity
    \<and> (maxVelocity < sqrt (vx (ns ! i) * vx (ns ! i) + vy (ns ! i) * vy (ns ! i)) \<longrightarrow>
         sqrt (vx (cap_velocity (ns ! i)) * vx (cap_velocity (ns ! i))
             + vy (cap_velocity (ns ! i)) * vy (cap_velocity (ns ! i))) = maxVelocity)"
proof -
  have 1: "update_positions width height dragging hov ns ! i
           = update_node width height dragging hov i (ns ! i)"
    using assms(1) by (simp add: update_positions_def nth_update_from)
  have 2: "physics_step width height dragging hov ls ns ! i
           = update_node width height dragging hov i
               (spring_pass dragging ls (calculate_forces width height dragging ns) ! i)"
    using assms(1) by (rule nth_physics_step)
  show ?thesis
    unfolding 1 2 using update_node_bound [OF assms(2)] cap_velocity_exact [of "ns ! i"] by blast
qed

theorem velocity_cap_invariant_witness:
  "sqrt (vx (update_positions 800 600 None None [genre_node ''Drama'' 400 300\<lparr>vx := 30, vy := 40\<rparr>] ! 0)
          * vx (update_positions 800 600 None None [genre_node ''Drama'' 400 300\<lparr>vx := 30, vy := 40\<rparr>] ! 0)
        + vy (update_positions 800 600 None None [genre_node ''Drama'' 400 300\<lparr>vx := 30, vy := 40\<rparr>] ! 0)
          * vy (update_positions 800 600 None None [genre_node ''Drama'' 400 300\<lparr>vx := 30, vy := 40\<rparr>] ! 0))
     \<le> maxVelocity
   \<and> sqrt (vx (cap_velocity (genre_node ''Drama'' 400 300\<lparr>vx := 30, vy := 40\<rparr>))
          * vx (cap_velocity (genre_node ''Drama'' 400 300\<lparr>vx := 30, vy := 40\<rparr>))
        + vy (cap_velocity (genre_node ''Drama'' 400 300\<lparr>vx := 30, vy := 40\<rparr>))
          * vy (cap_velocity (genre_node ''Drama'' 400 300\<lparr>vx := 30, vy := 40\<rparr>))) = maxVelocity"
proof -
  let ?ns = "[genre_node ''Drama'' 400 300\<lparr>vx := 30, vy := 40\<rparr>]"
  have h1: "0 < length ?ns" by simp
  have h2: "None \<noteq> Some (0::nat)" by simp
  have "sqrt ((50::real) * 50) = 50" by (rule sqrt_square_nonneg) simp
  then have h3: "maxVelocity < sqrt (vx (?ns ! 0) * vx (?ns ! 0) + vy (?ns ! 0) * vy (?ns ! 0))"
    by (simp add: genre_node_def maxVelocity_def)
  from velocity_cap_invariant [OF h1 h2, of 800 600 None "[]"] h3
  have "sqrt (vx (update_positions 800 600 None None ?ns ! 0)
          * vx (update_positions 800 600 None None ?ns ! 0)
        + vy (update_positions 800 600 None None ?ns ! 0)
          * vy (update_positions 800 600 None None ?ns ! 0)) \<le> maxVelocity
      \<and> sqrt (vx (cap_velocity (?ns ! 0)) * vx (cap_velocity (?ns ! 0))
             + vy (cap_velocity (?ns ! 0)) * vy (cap_velocity (?ns ! 0))) = maxVelocity"
    by blast
  then show ?thesis by simp
qed


end
